theory Spec2Isabelle
  imports Complex_Main "HOL-Library.Multiset"
begin


section \<open>JavaScript values\<close>

text \<open>
  The simulation core is TypeScript. A JavaScript \<open>number\<close> is idealised as a real
  (rounding of doubles is not modelled). The gold ledger additionally carries \<open>NaN\<close>,
  because arithmetic on \<open>undefined\<close> produces it and every comparison with it is false.
  Grid indices, counters and stack heights are integers. Fields of a class \<open>C\<close> are
  record fields prefixed with a short tag of \<open>C\<close>, since several classes share field
  names (\<open>id\<close>, \<open>hp\<close>, \<open>x\<close>, ...).
\<close>

datatype jsnum = Num real | NaN

fun js_add :: "jsnum \<Rightarrow> jsnum \<Rightarrow> jsnum" where
  "js_add (Num a) (Num b) = Num (a + b)"
| "js_add _ _ = NaN"

fun js_sub :: "jsnum \<Rightarrow> jsnum \<Rightarrow> jsnum" where
  "js_sub (Num a) (Num b) = Num (a - b)"
| "js_sub _ _ = NaN"

fun js_mul :: "jsnum \<Rightarrow> jsnum \<Rightarrow> jsnum" where
  "js_mul (Num a) (Num b) = Num (a * b)"
| "js_mul _ _ = NaN"

text \<open>\<open>a < b\<close>: false as soon as one side is \<open>NaN\<close>.\<close>

fun js_lt :: "jsnum \<Rightarrow> jsnum \<Rightarrow> bool" where
  "js_lt (Num a) (Num b) = (a < b)"
| "js_lt _ _ = False"


text \<open>Truthiness of an optional string (\<open>if (ownerId)\<close>): \<open>undefined\<close> and \<open>''\<close> are falsy.\<close>

definition truthy :: "string option \<Rightarrow> bool" where
  "truthy s = (case s of None \<Rightarrow> False | Some t \<Rightarrow> t \<noteq> [])"

text \<open>
  The result of \<open>obj[key]\<close> on an object literal: an own entry, a member inherited from
  \<open>Object.prototype\<close> (a function or object: truthy, with none of the entry's fields), or
  \<open>undefined\<close>.
\<close>

datatype 'a js_prop = Own 'a | Inherited | Undefined

definition Object_prototype_keys :: "string list" where
  "Object_prototype_keys =
     [''constructor'', ''toString'', ''toLocaleString'', ''valueOf'', ''hasOwnProperty'',
      ''isPrototypeOf'', ''propertyIsEnumerable'', ''__proto__'', ''__defineGetter__'',
      ''__defineSetter__'', ''__lookupGetter__'', ''__lookupSetter__'']"

text \<open>
  A JavaScript \<open>Map\<close> keeps its entries in insertion order: an association list with
  \<open>set\<close> replacing in place or appending, and \<open>delete\<close> removing the key.
\<close>

fun js_map_set :: "('k \<times> 'v) list \<Rightarrow> 'k \<Rightarrow> 'v \<Rightarrow> ('k \<times> 'v) list" where
  "js_map_set [] k v = [(k, v)]"
| "js_map_set ((k', v') # m) k v =
     (if k' = k then (k, v) # m else (k', v') # js_map_set m k v)"

definition js_map_get :: "('k \<times> 'v) list \<Rightarrow> 'k \<Rightarrow> 'v option" where
  "js_map_get m k = map_of m k"

definition js_map_delete :: "('k \<times> 'v) list \<Rightarrow> 'k \<Rightarrow> ('k \<times> 'v) list" where
  "js_map_delete m k = filter (\<lambda>kv. fst kv \<noteq> k) m"

definition js_map_values :: "('k \<times> 'v) list \<Rightarrow> 'v list" where
  "js_map_values m = map snd m"

record Vec2 =
  vx :: real
  vy :: real

text \<open>\<open>utils/math.ts\<close>: \<open>distance\<close>.\<close>

definition distance :: "Vec2 \<Rightarrow> Vec2 \<Rightarrow> real" where
  "distance a b =
     (let dx = vx a - vx b; dy = vy a - vy b in sqrt (dx * dx + dy * dy))"

section \<open>Configuration (\<open>config/gameConfig.ts\<close>)\<close>

datatype EnemyType =
  NormalZombie | FastZombie | HeavyZombie | ZombieBoss | Soldier | EliteSoldier | General



text \<open>
  \<open>CastleUpgradeType\<close> is a string enum: at run time its members are these strings, and
  the command API receives the upgrade type as a string.
\<close>

definition FortifyI :: string where "FortifyI = ''fortify_1''"
definition FortifyII :: string where "FortifyII = ''fortify_2''"
definition Treasury :: string where "Treasury = ''treasury''"
definition Repair :: string where "Repair = ''repair''"

record UpgradeCfg =
  cfg_cost :: real
  cfg_hpBonus :: "real option"
  cfg_goldBonusPerKill :: "real option"
  cfg_hpRestore :: "real option"

definition cfg_FortifyI :: UpgradeCfg where
  "cfg_FortifyI = \<lparr>cfg_cost = 100, cfg_hpBonus = Some 300, cfg_goldBonusPerKill = None,
     cfg_hpRestore = None\<rparr>"

definition cfg_FortifyII :: UpgradeCfg where
  "cfg_FortifyII = \<lparr>cfg_cost = 200, cfg_hpBonus = Some 500, cfg_goldBonusPerKill = None,
     cfg_hpRestore = None\<rparr>"

definition cfg_Treasury :: UpgradeCfg where
  "cfg_Treasury = \<lparr>cfg_cost = 150, cfg_hpBonus = None, cfg_goldBonusPerKill = Some 2,
     cfg_hpRestore = None\<rparr>"

definition cfg_Repair :: UpgradeCfg where
  "cfg_Repair = \<lparr>cfg_cost = 50, cfg_hpBonus = None, cfg_goldBonusPerKill = None,
     cfg_hpRestore = Some 200\<rparr>"

text \<open>\<open>CASTLE_CONFIG.upgrades[type]\<close> for an arbitrary string \<open>type\<close>.\<close>

definition CASTLE_CONFIG_upgrades :: "string \<Rightarrow> UpgradeCfg js_prop" where
  "CASTLE_CONFIG_upgrades k =
     (if k = FortifyI then Own cfg_FortifyI
      else if k = FortifyII then Own cfg_FortifyII
      else if k = Treasury then Own cfg_Treasury
      else if k = Repair then Own cfg_Repair
      else if k \<in> set Object_prototype_keys then Inherited
      else Undefined)"

text \<open>\<open>cfg.cost\<close> used as a number: \<open>undefined\<close> on an inherited member, hence \<open>NaN\<close>.\<close>

fun prop_cost :: "UpgradeCfg js_prop \<Rightarrow> jsnum" where
  "prop_cost (Own c) = Num (cfg_cost c)"
| "prop_cost _ = NaN"

definition CASTLE_CONFIG_baseHp :: real where "CASTLE_CONFIG_baseHp = 1000"

definition CASTLE_POSITIONS :: "(int \<times> int) list" where
  "CASTLE_POSITIONS = [(20, 20), (8, 8), (32, 8), (8, 32)]"

definition startingGoldPerPlayer :: real where "startingGoldPerPlayer = 500"


section \<open>EconomyManager\<close>

record EconomyManager =
  playerGold :: "(string \<times> jsnum) list"
  totalGoldEarned :: jsnum
  goldBonusPerKill :: real

definition Economy_init :: "string list \<Rightarrow> EconomyManager" where
  "Economy_init playerIds =
     \<lparr>playerGold = foldl (\<lambda>m i. js_map_set m i (Num startingGoldPerPlayer)) [] playerIds,
      totalGoldEarned = Num (startingGoldPerPlayer * of_nat (length playerIds)),
      goldBonusPerKill = 0\<rparr>"

definition getGold :: "EconomyManager \<Rightarrow> string \<Rightarrow> jsnum" where
  "getGold ec playerId =
     (case js_map_get (playerGold ec) playerId of None \<Rightarrow> Num 0 | Some v \<Rightarrow> v)"

definition getTotalGold :: "EconomyManager \<Rightarrow> jsnum" where
  "getTotalGold ec = foldl js_add (Num 0) (js_map_values (playerGold ec))"

definition addGold :: "EconomyManager \<Rightarrow> string \<Rightarrow> jsnum \<Rightarrow> EconomyManager" where
  "addGold ec playerId amount =
     ec\<lparr>playerGold := js_map_set (playerGold ec) playerId (js_add (getGold ec playerId) amount),
        totalGoldEarned := js_add (totalGoldEarned ec) amount\<rparr>"

definition addGoldAll :: "EconomyManager \<Rightarrow> jsnum \<Rightarrow> EconomyManager" where
  "addGoldAll ec amount =
     ec\<lparr>playerGold := map (\<lambda>kv. (fst kv, js_add (snd kv) amount)) (playerGold ec),
        totalGoldEarned :=
          js_add (totalGoldEarned ec) (js_mul amount (Num (of_nat (length (playerGold ec)))))\<rparr>"

definition spendGold :: "EconomyManager \<Rightarrow> string \<Rightarrow> jsnum \<Rightarrow> bool \<times> EconomyManager" where
  "spendGold ec playerId amount =
     (let current = getGold ec playerId in
      if js_lt current amount then (False, ec)
      else (True, ec\<lparr>playerGold := js_map_set (playerGold ec) playerId (js_sub current amount)\<rparr>))"

definition setGoldBonusPerKill :: "EconomyManager \<Rightarrow> real \<Rightarrow> EconomyManager" where
  "setGoldBonusPerKill ec bonus = ec\<lparr>goldBonusPerKill := bonus\<rparr>"

section \<open>CastleManager\<close>

record PlayerCastle =
  castle_playerId :: string
  castle_hp :: real
  castle_maxHp :: real
  castle_centerX :: int
  castle_centerY :: int
  castle_purchasedUpgrades :: "string set"
  castle_goldBonusPerKill :: real
  castle_lastKingAttackTime :: real

record CastleManager =
  castles :: "(string \<times> PlayerCastle) list"

text \<open>\<open>CASTLE_POSITIONS[i] || CASTLE_POSITIONS[0]\<close>.\<close>

definition castle_position :: "nat \<Rightarrow> int \<times> int" where
  "castle_position i =
     (if i < length CASTLE_POSITIONS then CASTLE_POSITIONS ! i else CASTLE_POSITIONS ! 0)"

definition initMultiple :: "string list \<Rightarrow> CastleManager" where
  "initMultiple playerIds =
     \<lparr>castles =
        foldl (\<lambda>m i.
                js_map_set m (playerIds ! i)
                  \<lparr>castle_playerId = playerIds ! i,
                   castle_hp = CASTLE_CONFIG_baseHp,
                   castle_maxHp = CASTLE_CONFIG_baseHp,
                   castle_centerX = fst (castle_position i),
                   castle_centerY = snd (castle_position i),
                   castle_purchasedUpgrades = {},
                   castle_goldBonusPerKill = 0,
                   castle_lastKingAttackTime = 0\<rparr>)
          [] [0..<length playerIds]\<rparr>"

definition getCastle :: "CastleManager \<Rightarrow> string \<Rightarrow> PlayerCastle option" where
  "getCastle cm playerId = js_map_get (castles cm) playerId"

definition getAllCastles :: "CastleManager \<Rightarrow> PlayerCastle list" where
  "getAllCastles cm = js_map_values (castles cm)"

definition getHp :: "CastleManager \<Rightarrow> string \<Rightarrow> real" where
  "getHp cm playerId = (case getCastle cm playerId of None \<Rightarrow> 0 | Some c \<Rightarrow> castle_hp c)"

text \<open>
  \<open>getGoldBonusPerKill(playerId?)\<close>: the player's own bonus when the argument is truthy,
  otherwise the largest bonus over all castles.
\<close>

definition getGoldBonusPerKill :: "CastleManager \<Rightarrow> string option \<Rightarrow> real" where
  "getGoldBonusPerKill cm playerId =
     (if truthy playerId then
        (case playerId of
           None \<Rightarrow> 0
         | Some p \<Rightarrow> (case getCastle cm p of None \<Rightarrow> 0 | Some c \<Rightarrow> castle_goldBonusPerKill c))
      else foldl (\<lambda>maxBonus c.
                   if castle_goldBonusPerKill c > maxBonus then castle_goldBonusPerKill c
                   else maxBonus)
             0 (getAllCastles cm))"

definition Castle_takeDamage :: "CastleManager \<Rightarrow> string \<Rightarrow> real \<Rightarrow> CastleManager" where
  "Castle_takeDamage cm playerId amount =
     (case getCastle cm playerId of
        None \<Rightarrow> cm
      | Some c \<Rightarrow>
          cm\<lparr>castles := js_map_set (castles cm) playerId
                (c\<lparr>castle_hp := max 0 (castle_hp c - amount)\<rparr>)\<rparr>)"

definition isAllDestroyed :: "CastleManager \<Rightarrow> bool" where
  "isAllDestroyed cm = (\<not> list_ex (\<lambda>c. castle_hp c > 0) (getAllCastles cm))"

record UpgradeResult =
  ur_success :: bool
  ur_cost :: real
  ur_reason :: "string option"

definition repair :: "CastleManager \<Rightarrow> string \<Rightarrow> UpgradeResult \<times> CastleManager" where
  "repair cm playerId =
     (case getCastle cm playerId of
        None \<Rightarrow> (\<lparr>ur_success = False, ur_cost = 0, ur_reason = None\<rparr>, cm)
      | Some c \<Rightarrow>
          (\<lparr>ur_success = True, ur_cost = cfg_cost cfg_Repair, ur_reason = None\<rparr>,
           cm\<lparr>castles := js_map_set (castles cm) playerId
                 (c\<lparr>castle_hp := min (castle_maxHp c) (castle_hp c + 200)\<rparr>)\<rparr>))"

text \<open>
  \<open>upgrade(playerId, type)\<close>. The type is recorded as purchased before the \<open>switch\<close>,
  so the \<open>default\<close> branch fails after having added it.
\<close>

definition upgrade :: "CastleManager \<Rightarrow> string \<Rightarrow> string \<Rightarrow> UpgradeResult \<times> CastleManager" where
  "upgrade cm playerId ty =
     (case getCastle cm playerId of
        None \<Rightarrow> (\<lparr>ur_success = False, ur_cost = 0, ur_reason = Some ''Castle not found''\<rparr>, cm)
      | Some c \<Rightarrow>
          if ty = Repair then repair cm playerId
          else if ty \<in> castle_purchasedUpgrades c then
            (\<lparr>ur_success = False, ur_cost = 0, ur_reason = Some ''Already purchased''\<rparr>, cm)
          else if ty = FortifyII \<and> FortifyI \<notin> castle_purchasedUpgrades c then
            (\<lparr>ur_success = False, ur_cost = 0, ur_reason = Some ''FortifyI required first''\<rparr>, cm)
          else
            (let c1 = c\<lparr>castle_purchasedUpgrades := insert ty (castle_purchasedUpgrades c)\<rparr> in
             if ty = FortifyI then
               (\<lparr>ur_success = True, ur_cost = cfg_cost cfg_FortifyI, ur_reason = None\<rparr>,
                cm\<lparr>castles := js_map_set (castles cm) playerId
                      (c1\<lparr>castle_maxHp := castle_maxHp c1 + 300,
                          castle_hp := castle_hp c1 + 300\<rparr>)\<rparr>)
             else if ty = FortifyII then
               (\<lparr>ur_success = True, ur_cost = cfg_cost cfg_FortifyII, ur_reason = None\<rparr>,
                cm\<lparr>castles := js_map_set (castles cm) playerId
                      (c1\<lparr>castle_maxHp := castle_maxHp c1 + 500,
                          castle_hp := castle_hp c1 + 500\<rparr>)\<rparr>)
             else if ty = Treasury then
               (\<lparr>ur_success = True, ur_cost = cfg_cost cfg_Treasury, ur_reason = None\<rparr>,
                cm\<lparr>castles := js_map_set (castles cm) playerId
                      (c1\<lparr>castle_goldBonusPerKill := 2\<rparr>)\<rparr>)
             else
               (\<lparr>ur_success = False, ur_cost = 0, ur_reason = Some ''Unknown upgrade type''\<rparr>,
                cm\<lparr>castles := js_map_set (castles cm) playerId c1\<rparr>)))"

section \<open>EnemyManager\<close>

record Enemy =
  enemy_id :: string
  enemy_type :: EnemyType
  enemy_x :: real
  enemy_y :: real
  enemy_hp :: real
  enemy_maxHp :: real
  enemy_speed :: real
  enemy_damage :: real
  enemy_path :: "Vec2 list"
  enemy_pathIndex :: nat
  enemy_goldReward :: real
  enemy_special :: "string option"
  enemy_lastSpecialTime :: real
  enemy_canClimbWalls :: bool

record EnemyManager =
  enemies :: "(string \<times> Enemy) list"
  totalKills :: nat


definition getEnemy :: "EnemyManager \<Rightarrow> string \<Rightarrow> Enemy option" where
  "getEnemy em i = js_map_get (enemies em) i"

definition getAllEnemies :: "EnemyManager \<Rightarrow> Enemy list" where
  "getAllEnemies em = js_map_values (enemies em)"

record TakeDamageResult =
  tdr_killed :: bool
  tdr_goldReward :: real

text \<open>\<open>EnemyManager.takeDamage(id, amount)\<close>.\<close>

definition Enemy_takeDamage ::
  "EnemyManager \<Rightarrow> string \<Rightarrow> real \<Rightarrow> TakeDamageResult \<times> EnemyManager" where
  "Enemy_takeDamage em i amount =
     (case js_map_get (enemies em) i of
        None \<Rightarrow> (\<lparr>tdr_killed = False, tdr_goldReward = 0\<rparr>, em)
      | Some enemy \<Rightarrow>
          (let enemy1 = enemy\<lparr>enemy_hp := max 0 (enemy_hp enemy - amount)\<rparr> in
           if enemy_hp enemy1 \<le> 0 then
             (\<lparr>tdr_killed = True, tdr_goldReward = enemy_goldReward enemy1\<rparr>,
              em\<lparr>totalKills := totalKills em + 1,
                 enemies := js_map_delete (enemies em) i\<rparr>)
           else
             (\<lparr>tdr_killed = False, tdr_goldReward = 0\<rparr>,
              em\<lparr>enemies := js_map_set (enemies em) i enemy1\<rparr>)))"

definition removeEnemy :: "EnemyManager \<Rightarrow> string \<Rightarrow> EnemyManager" where
  "removeEnemy em i = em\<lparr>enemies := js_map_delete (enemies em) i\<rparr>"


text \<open>
  A run of \<open>takeDamage\<close> calls, each given as (id, amount): the results in call order,
  and the manager after the last call.
\<close>

fun takeDamage_calls ::
  "EnemyManager \<Rightarrow> (string \<times> real) list \<Rightarrow> (string \<times> TakeDamageResult) list \<times> EnemyManager"
where
  "takeDamage_calls em [] = ([], em)"
| "takeDamage_calls em ((i, amount) # cs) =
     (let (r, em1) = Enemy_takeDamage em i amount;
          (rs, em2) = takeDamage_calls em1 cs
      in ((i, r) # rs, em2))"

section \<open>CombatManager: the castle king block of \<open>update\<close>\<close>

record KillInfo =
  kill_enemyId :: string
  kill_goldReward :: real
  kill_killedByBuildingOwnerId :: "string option"

datatype TargetType = TargetEnemy | TargetBuilding | TargetCastle
datatype SourceType = SourceBuilding | SourceCastleKing






section \<open>GameEngine: kill rewards and the castle upgrade command\<close>

record GameEngine =
  economyManager :: EconomyManager
  castleManager :: CastleManager

definition GameEngine_init :: "string list \<Rightarrow> GameEngine" where
  "GameEngine_init playerIds =
     \<lparr>economyManager = Economy_init playerIds, castleManager = initMultiple playerIds\<rparr>"

text \<open>
  \<open>tick\<close>, the loop over \<open>combatResult.kills\<close>. The event callbacks only report the
  new state to the transport layer and are left out.
\<close>

definition processKill :: "GameEngine \<Rightarrow> KillInfo \<Rightarrow> GameEngine" where
  "processKill eng kill =
     (let ownerId = kill_killedByBuildingOwnerId kill in
      case (if truthy ownerId then ownerId else None) of
        Some owner \<Rightarrow>
          (let goldBonus = getGoldBonusPerKill (castleManager eng) (Some owner);
               totalGold = kill_goldReward kill + goldBonus
           in eng\<lparr>economyManager := addGold (economyManager eng) owner (Num totalGold)\<rparr>)
      | None \<Rightarrow>
          (let goldBonus = getGoldBonusPerKill (castleManager eng) None;
               totalGold = kill_goldReward kill + goldBonus
           in eng\<lparr>economyManager := addGoldAll (economyManager eng) (Num totalGold)\<rparr>))"

definition processKills :: "GameEngine \<Rightarrow> KillInfo list \<Rightarrow> GameEngine" where
  "processKills eng kills = foldl processKill eng kills"

record CommandResult =
  cr_success :: bool
  cr_error :: "string option"

text \<open>\<open>handleUpgradeCastle(upgradeType, playerId)\<close>.\<close>

definition handleUpgradeCastle :: "string \<Rightarrow> string \<Rightarrow> GameEngine \<Rightarrow> CommandResult \<times> GameEngine" where
  "handleUpgradeCastle upgradeType playerId eng =
     (case CASTLE_CONFIG_upgrades upgradeType of
        Undefined \<Rightarrow> (\<lparr>cr_success = False, cr_error = Some ''Unknown upgrade type''\<rparr>, eng)
      | cfg \<Rightarrow>
          (case spendGold (economyManager eng) playerId (prop_cost cfg) of
             (False, _) \<Rightarrow> (\<lparr>cr_success = False, cr_error = Some ''Not enough gold''\<rparr>, eng)
           | (True, ec1) \<Rightarrow>
               (case upgrade (castleManager eng) playerId upgradeType of
                  (result, cm1) \<Rightarrow>
                    if \<not> ur_success result then
                      (\<lparr>cr_success = False, cr_error = ur_reason result\<rparr>,
                       eng\<lparr>economyManager := addGold ec1 playerId (prop_cost cfg),
                           castleManager := cm1\<rparr>)
                    else
                      (\<lparr>cr_success = True, cr_error = None\<rparr>,
                       eng\<lparr>economyManager :=
                             (if upgradeType = Treasury then
                                setGoldBonusPerKill ec1 (getGoldBonusPerKill cm1 (Some playerId))
                              else ec1),
                           castleManager := cm1\<rparr>))))"

definition handleRepairCastle :: "string \<Rightarrow> GameEngine \<Rightarrow> CommandResult \<times> GameEngine" where
  "handleRepairCastle playerId eng = handleUpgradeCastle Repair playerId eng"

section \<open>Grid (\<open>pathfinding/Grid.ts\<close>)\<close>

definition MAP_gridWidth :: int where "MAP_gridWidth = 40"
definition MAP_gridHeight :: int where "MAP_gridHeight = 40"
definition MAP_castleCenterX :: int where "MAP_castleCenterX = 20"
definition MAP_castleCenterY :: int where "MAP_castleCenterY = 20"

text \<open>
  The two matrices are read and written only at cells in bounds (every access is guarded
  by \<open>isInBounds\<close>), so each is a function from cells to values.
\<close>

record Grid =
  grid_width :: int
  grid_height :: int
  grid_walkable :: "int \<times> int \<Rightarrow> bool"
  grid_wallHeight :: "int \<times> int \<Rightarrow> nat"
  grid_castlePositions :: "(int \<times> int) list"

text \<open>The constructor: every cell walkable, no wall anywhere.\<close>

definition Grid_new :: Grid where
  "Grid_new =
     \<lparr>grid_width = MAP_gridWidth, grid_height = MAP_gridHeight,
      grid_walkable = (\<lambda>c. True),
      grid_wallHeight = (\<lambda>c. 0),
      grid_castlePositions = []\<rparr>"

definition isInBounds :: "Grid \<Rightarrow> int \<Rightarrow> int \<Rightarrow> bool" where
  "isInBounds g px py = (px \<ge> 0 \<and> px < grid_width g \<and> py \<ge> 0 \<and> py < grid_height g)"

definition isWalkable :: "Grid \<Rightarrow> int \<Rightarrow> int \<Rightarrow> bool" where
  "isWalkable g px py =
     (if \<not> isInBounds g px py then False else grid_walkable g (px, py))"

text \<open>The cells of the nested loop \<open>for dx < w, for dy < h\<close>, in loop order.\<close>

definition rect_cells :: "int \<Rightarrow> int \<Rightarrow> int \<Rightarrow> int \<Rightarrow> (int \<times> int) list" where
  "rect_cells px py w h =
     concat (map (\<lambda>dx. map (\<lambda>dy. (px + dx, py + dy)) [0..h - 1]) [0..w - 1])"

text \<open>The body of the loops of \<open>setBlocked\<close> and \<open>setWalkable\<close>, and of \<open>setWallHeight\<close>.\<close>

definition mark_cell :: "bool \<Rightarrow> Grid \<Rightarrow> int \<times> int \<Rightarrow> Grid" where
  "mark_cell v g c =
     (if isInBounds g (fst c) (snd c) then g\<lparr>grid_walkable := (grid_walkable g)(c := v)\<rparr>
      else g)"

definition height_cell :: "nat \<Rightarrow> Grid \<Rightarrow> int \<times> int \<Rightarrow> Grid" where
  "height_cell v g c =
     (if isInBounds g (fst c) (snd c) then g\<lparr>grid_wallHeight := (grid_wallHeight g)(c := v)\<rparr>
      else g)"

definition setBlocked :: "Grid \<Rightarrow> int \<Rightarrow> int \<Rightarrow> int \<Rightarrow> int \<Rightarrow> Grid" where
  "setBlocked g px py w h = foldl (mark_cell False) g (rect_cells px py w h)"

definition setWalkable :: "Grid \<Rightarrow> int \<Rightarrow> int \<Rightarrow> int \<Rightarrow> int \<Rightarrow> Grid" where
  "setWalkable g px py w h = foldl (mark_cell True) g (rect_cells px py w h)"

definition setWallHeight :: "Grid \<Rightarrow> int \<Rightarrow> int \<Rightarrow> int \<Rightarrow> int \<Rightarrow> nat \<Rightarrow> Grid" where
  "setWallHeight g px py w h height = foldl (height_cell height) g (rect_cells px py w h)"

definition getWallHeight :: "Grid \<Rightarrow> int \<Rightarrow> int \<Rightarrow> nat" where
  "getWallHeight g px py =
     (if \<not> isInBounds g px py then 0 else grid_wallHeight g (px, py))"


definition initCastles :: "Grid \<Rightarrow> (int \<times> int) list \<Rightarrow> Grid" where
  "initCastles g positions =
     foldl (\<lambda>g pos. setBlocked g (fst pos - 2) (snd pos - 2) 4 4)
       (g\<lparr>grid_castlePositions := positions\<rparr>) positions"


definition getNeighbors :: "Grid \<Rightarrow> int \<Rightarrow> int \<Rightarrow> (int \<times> int) list" where
  "getNeighbors g px py =
     filter (\<lambda>n. isWalkable g (fst n) (snd n))
       [(px + 1, py), (px - 1, py), (px, py + 1), (px, py - 1)]"

text \<open>
  \<open>clone\<close> copies every cell into a fresh grid so that a hypothetical edit leaves the
  live grid alone. Values are immutable here, so the copy is the grid itself.
\<close>

definition clone :: "Grid \<Rightarrow> Grid" where
  "clone g = g"

section \<open>A* (\<open>pathfinding/AStar.ts\<close>)\<close>

datatype AStarNode =
  AStarNode (node_x: int) (node_y: int) (node_g: int) (node_h: int) (node_f: int)
    (node_parent: "AStarNode option")

definition manhattan :: "int \<Rightarrow> int \<Rightarrow> int \<Rightarrow> int \<Rightarrow> int" where
  "manhattan x1 y1 x2 y2 = \<bar>x1 - x2\<bar> + \<bar>y1 - y2\<bar>"

text \<open>
  \<open>nodeKey\<close> builds the string \<open>x,y\<close>; distinct cells have distinct keys, so the cell
  itself is the key. \<open>openMap\<close> is a \<open>Map\<close>, \<open>closedSet\<close> a \<open>Set\<close>.
\<close>

type_synonym openMap = "((int \<times> int) \<times> AStarNode) list"

text \<open>The scan for the open node with the lowest \<open>f\<close>, ties broken by the lower \<open>h\<close>.\<close>

definition lowest :: "openMap \<Rightarrow> AStarNode option" where
  "lowest om =
     foldl (\<lambda>current node.
              case current of
                None \<Rightarrow> Some node
              | Some c \<Rightarrow>
                  if node_f node < node_f c \<or> (node_f node = node_f c \<and> node_h node < node_h c)
                  then Some node else current)
       None (js_map_values om)"

text \<open>The path from the start to a node, following the parents and reversing.\<close>

fun parents :: "AStarNode \<Rightarrow> Vec2 list" where
  "parents (AStarNode px py g h f None) = [\<lparr>vx = of_int px, vy = of_int py\<rparr>]"
| "parents (AStarNode px py g h f (Some p)) = \<lparr>vx = of_int px, vy = of_int py\<rparr> # parents p"

definition reconstruct :: "AStarNode \<Rightarrow> Vec2 list" where
  "reconstruct current = rev (parents current)"

text \<open>The body of the loop over the neighbours of the expanded node.\<close>

definition relax ::
  "AStarNode \<Rightarrow> (int \<times> int) set \<Rightarrow> int \<Rightarrow> int \<Rightarrow> openMap \<Rightarrow> int \<times> int \<Rightarrow> openMap" where
  "relax current closedSet ex ey om n =
     (if n \<in> closedSet then om
      else
        (let tentativeG = node_g current + 1 in
         case js_map_get om n of
           Some existing \<Rightarrow>
             if tentativeG < node_g existing then
               js_map_set om n
                 (AStarNode (node_x existing) (node_y existing) tentativeG (node_h existing)
                    (tentativeG + node_h existing) (Some current))
             else om
         | None \<Rightarrow>
             (let h = manhattan (fst n) (snd n) ex ey in
              js_map_set om n (AStarNode (fst n) (snd n) tentativeG h (tentativeG + h)
                (Some current)))))"

text \<open>
  The \<open>while (openMap.size > 0)\<close> loop. Leaving the loop, by its condition or by
  \<open>break\<close>, returns the empty path.
\<close>

partial_function (option) astar_loop ::
  "Grid \<Rightarrow> int \<Rightarrow> int \<Rightarrow> openMap \<Rightarrow> (int \<times> int) set \<Rightarrow> Vec2 list option" where
  "astar_loop grid ex ey om closedSet =
     (if om = [] then Some []
      else
        (case lowest om of
           None \<Rightarrow> Some []
         | Some current \<Rightarrow>
             if node_x current = ex \<and> node_y current = ey then Some (reconstruct current)
             else
               (let currentKey = (node_x current, node_y current);
                    om1 = js_map_delete om currentKey;
                    closed1 = insert currentKey closedSet;
                    om2 = foldl (relax current closed1 ex ey) om1
                            (getNeighbors grid (node_x current) (node_y current))
                in astar_loop grid ex ey om2 closed1)))"

declare astar_loop.simps [code]

text \<open>
  The replacement target when the end cell is blocked: the walkable cell among the eight
  neighbours closest to the start, else the walkable cell of the 5x5 block closest to the
  end; in both scans the first of equally close cells wins.
\<close>

definition nearest_walkable ::
  "Grid \<Rightarrow> int \<Rightarrow> int \<Rightarrow> (int \<times> int) list \<Rightarrow> (int \<times> int) option" where
  "nearest_walkable grid tx ty cells =
     map_option snd
       (foldl (\<lambda>best n.
                if isWalkable grid (fst n) (snd n) then
                  (let d = manhattan (fst n) (snd n) tx ty in
                   case best of
                     None \<Rightarrow> Some (d, n)
                   | Some (bestDist, b) \<Rightarrow> if d < bestDist then Some (d, n) else best)
                else best)
          None cells)"

definition blocked_target :: "Grid \<Rightarrow> int \<Rightarrow> int \<Rightarrow> int \<Rightarrow> int \<Rightarrow> (int \<times> int) option" where
  "blocked_target grid sx sy ex ey =
     (case nearest_walkable grid sx sy
             [(ex - 1, ey), (ex + 1, ey), (ex, ey - 1), (ex, ey + 1),
              (ex - 1, ey - 1), (ex + 1, ey - 1), (ex - 1, ey + 1), (ex + 1, ey + 1)] of
        Some n \<Rightarrow> Some n
      | None \<Rightarrow>
          nearest_walkable grid ex ey
            (concat (map (\<lambda>dx. map (\<lambda>dy. (ex + dx, ey + dy)) [-2..2]) [-2..2])))"

text \<open>The end the search runs to: the end itself, or its replacement when it is blocked.\<close>

definition actualEnd :: "Grid \<Rightarrow> int \<Rightarrow> int \<Rightarrow> int \<Rightarrow> int \<Rightarrow> (int \<times> int) option" where
  "actualEnd grid sx sy ex ey =
     (if \<not> isWalkable grid ex ey then blocked_target grid sx sy ex ey else Some (ex, ey))"

text \<open>
  \<open>findPath\<close>. The result would be \<open>None\<close> if the search loop did not terminate.
\<close>

definition findPath :: "Grid \<Rightarrow> int \<Rightarrow> int \<Rightarrow> int \<Rightarrow> int \<Rightarrow> Vec2 list option" where
  "findPath grid sx sy ex ey =
     (if \<not> isInBounds grid sx sy \<or> \<not> isInBounds grid ex ey then Some []
      else
        (case actualEnd grid sx sy ex ey of
           None \<Rightarrow> Some []
         | Some target \<Rightarrow>
             if \<not> isWalkable grid sx sy then Some []
             else if sx = fst target \<and> sy = snd target then
               Some [\<lparr>vx = of_int sx, vy = of_int sy\<rparr>]
             else
               (let h = manhattan sx sy (fst target) (snd target) in
                astar_loop grid (fst target) (snd target)
                  [((sx, sy), AStarNode sx sy 0 h h None)] {})))"

text \<open>
  The cells connected to a cell by steps between walkable cardinal neighbours (the
  cell itself included).
\<close>

inductive_set reach :: "Grid \<Rightarrow> int \<times> int \<Rightarrow> (int \<times> int) set"
  for grid :: Grid and s :: "int \<times> int"
where
  start: "s \<in> reach grid s"
| step: "c \<in> reach grid s \<Longrightarrow> n \<in> set (getNeighbors grid (fst c) (snd c)) \<Longrightarrow>
         n \<in> reach grid s"

section \<open>BuildingManager\<close>

datatype BuildingType =
  WoodenWall | StoneWall | BrickWall | RiverBarrier | ArrowTower | Cannon | Ballista
  | ExplosiveMine | HotAirBalloon

record BuildingStats =
  bs_gridWidth :: int
  bs_gridHeight :: int
  bs_hp :: real
  bs_cost :: real
  bs_damage :: "real option"
  bs_range :: "real option"
  bs_attackSpeed :: "real option"
  bs_isWall :: bool
  bs_isOneTime :: "bool option"
  bs_aoeRadius :: "real option"
  bs_special :: "string option"

fun BUILDING_STATS :: "BuildingType \<Rightarrow> BuildingStats" where
  "BUILDING_STATS WoodenWall =
     \<lparr>bs_gridWidth = 1, bs_gridHeight = 1, bs_hp = 100, bs_cost = 5, bs_damage = None,
      bs_range = None, bs_attackSpeed = None, bs_isWall = True, bs_isOneTime = None,
      bs_aoeRadius = None, bs_special = None\<rparr>"
| "BUILDING_STATS StoneWall =
     \<lparr>bs_gridWidth = 1, bs_gridHeight = 1, bs_hp = 250, bs_cost = 12, bs_damage = None,
      bs_range = None, bs_attackSpeed = None, bs_isWall = True, bs_isOneTime = None,
      bs_aoeRadius = None, bs_special = None\<rparr>"
| "BUILDING_STATS BrickWall =
     \<lparr>bs_gridWidth = 1, bs_gridHeight = 1, bs_hp = 500, bs_cost = 25, bs_damage = None,
      bs_range = None, bs_attackSpeed = None, bs_isWall = True, bs_isOneTime = None,
      bs_aoeRadius = None, bs_special = None\<rparr>"
| "BUILDING_STATS RiverBarrier =
     \<lparr>bs_gridWidth = 2, bs_gridHeight = 1, bs_hp = 150, bs_cost = 20, bs_damage = None,
      bs_range = None, bs_attackSpeed = None, bs_isWall = True, bs_isOneTime = None,
      bs_aoeRadius = None, bs_special = Some ''slow_50''\<rparr>"
| "BUILDING_STATS ArrowTower =
     \<lparr>bs_gridWidth = 2, bs_gridHeight = 1, bs_hp = 200, bs_cost = 25, bs_damage = Some 8,
      bs_range = Some 5, bs_attackSpeed = Some 1, bs_isWall = False, bs_isOneTime = None,
      bs_aoeRadius = None, bs_special = None\<rparr>"
| "BUILDING_STATS Cannon =
     \<lparr>bs_gridWidth = 2, bs_gridHeight = 2, bs_hp = 250, bs_cost = 50, bs_damage = Some 25,
      bs_range = Some 6, bs_attackSpeed = Some 3, bs_isWall = False, bs_isOneTime = None,
      bs_aoeRadius = Some 2, bs_special = None\<rparr>"
| "BUILDING_STATS Ballista =
     \<lparr>bs_gridWidth = 2, bs_gridHeight = 1, bs_hp = 180, bs_cost = 35, bs_damage = Some 40,
      bs_range = Some 8, bs_attackSpeed = Some (25 / 10), bs_isWall = False,
      bs_isOneTime = None, bs_aoeRadius = None, bs_special = Some ''pierce_2''\<rparr>"
| "BUILDING_STATS ExplosiveMine =
     \<lparr>bs_gridWidth = 1, bs_gridHeight = 1, bs_hp = 50, bs_cost = 10, bs_damage = Some 80,
      bs_range = Some 0, bs_attackSpeed = None, bs_isWall = False, bs_isOneTime = Some True,
      bs_aoeRadius = Some (15 / 10), bs_special = None\<rparr>"
| "BUILDING_STATS HotAirBalloon =
     \<lparr>bs_gridWidth = 2, bs_gridHeight = 2, bs_hp = 150, bs_cost = 80, bs_damage = Some 30,
      bs_range = Some 4, bs_attackSpeed = Some 4, bs_isWall = False, bs_isOneTime = None,
      bs_aoeRadius = Some 2, bs_special = Some ''aerial''\<rparr>"

record Building =
  building_id :: string
  building_type :: BuildingType
  building_gridX :: int
  building_gridY :: int
  building_hp :: real
  building_maxHp :: real
  building_ownerId :: string
  building_lastAttackTime :: real
  building_stats :: BuildingStats
  building_stackCount :: nat

record BuildingManager =
  buildings :: "(string \<times> Building) list"
  totalBuildingsPlaced :: nat

definition Building_init :: BuildingManager where
  "Building_init = \<lparr>buildings = [], totalBuildingsPlaced = 0\<rparr>"

definition getBuilding :: "BuildingManager \<Rightarrow> string \<Rightarrow> Building option" where
  "getBuilding bm i = js_map_get (buildings bm) i"

definition getAllBuildings :: "BuildingManager \<Rightarrow> Building list" where
  "getAllBuildings bm = js_map_values (buildings bm)"

definition is_wall_at :: "int \<Rightarrow> int \<Rightarrow> BuildingType \<Rightarrow> Building \<Rightarrow> bool" where
  "is_wall_at gx gy ty b =
     (building_gridX b = gx \<and> building_gridY b = gy \<and> building_type b = ty \<and>
      bs_isWall (building_stats b))"

definition findWallAt :: "BuildingManager \<Rightarrow> int \<Rightarrow> int \<Rightarrow> BuildingType \<Rightarrow> Building option" where
  "findWallAt bm gx gy ty = find (is_wall_at gx gy ty) (js_map_values (buildings bm))"

text \<open>
  \<open>findWallAt\<close> returns the wall object itself, which \<open>placeBuilding\<close> then mutates: the
  first entry of the map that holds a matching wall is the one that changes.
\<close>

fun update_first :: "('v \<Rightarrow> bool) \<Rightarrow> ('v \<Rightarrow> 'v) \<Rightarrow> ('k \<times> 'v) list \<Rightarrow> ('k \<times> 'v) list" where
  "update_first P u [] = []"
| "update_first P u ((k, v) # m) =
     (if P v then (k, u v) # m else (k, v) # update_first P u m)"

record PlaceResult =
  pr_building :: "Building option"
  pr_reason :: "string option"

definition rejected :: "string \<Rightarrow> PlaceResult" where
  "rejected reason = \<lparr>pr_building = None, pr_reason = Some reason\<rparr>"

text \<open>The four map-edge midpoints, in the order north, south, west, east.\<close>

definition edgeTests :: "(int \<times> int) list" where
  "edgeTests =
     [(MAP_castleCenterX, 0), (MAP_castleCenterX, MAP_gridHeight - 1),
      (0, MAP_castleCenterY), (MAP_gridWidth - 1, MAP_castleCenterY)]"

text \<open>
  The loop over the edge midpoints: a midpoint that is not walkable on the test grid is
  skipped; an empty path from any other midpoint fails the check.
\<close>

fun edge_paths_ok :: "Grid \<Rightarrow> (int \<times> int) list \<Rightarrow> bool option" where
  "edge_paths_ok testGrid [] = Some True"
| "edge_paths_ok testGrid (start # rest) =
     (if \<not> isWalkable testGrid (fst start) (snd start) then edge_paths_ok testGrid rest
      else
        (case findPath testGrid (fst start) (snd start) MAP_castleCenterX MAP_castleCenterY of
           None \<Rightarrow> None
         | Some path \<Rightarrow> if length path = 0 then Some False else edge_paths_ok testGrid rest))"

text \<open>
  \<open>placeBuilding(type, gridX, gridY, ownerId, grid, currentGold)\<close>. The type is a member
  of \<open>BuildingType\<close>, so the lookup of its stats succeeds. \<open>newId\<close> is the identifier
  that \<open>uuidv4()\<close> draws. The result is the returned object, the manager and the grid;
  it would be \<open>None\<close> if a path search did not terminate.
\<close>

definition placeBuilding ::
  "BuildingManager \<Rightarrow> BuildingType \<Rightarrow> int \<Rightarrow> int \<Rightarrow> string \<Rightarrow> Grid \<Rightarrow> jsnum \<Rightarrow> string \<Rightarrow>
   (PlaceResult \<times> BuildingManager \<times> Grid) option" where
  "placeBuilding bm ty gridX gridY ownerId grid currentGold newId =
     (let stats = BUILDING_STATS ty;
          w = bs_gridWidth stats;
          h = bs_gridHeight stats
      in
      if js_lt currentGold (Num (bs_cost stats)) then
        Some (rejected ''Not enough gold'', bm, grid)
      else if gridX < 0 \<or> gridY < 0 \<or> gridX + w > MAP_gridWidth \<or> gridY + h > MAP_gridHeight
      then Some (rejected ''Out of bounds'', bm, grid)
      else
        (let allBlocked =
               (\<not> list_ex (\<lambda>c. isWalkable grid (fst c) (snd c)) (rect_cells gridX gridY w h))
         in
         if allBlocked \<and> bs_isWall stats then
           (case findWallAt bm gridX gridY ty of
              Some existingWall \<Rightarrow>
                if building_stackCount existingWall < 3 then
                  (let wall1 = existingWall
                         \<lparr>building_stackCount := building_stackCount existingWall + 1,
                          building_hp := building_hp existingWall + bs_hp stats,
                          building_maxHp := building_maxHp existingWall + bs_hp stats\<rparr>
                   in Some (\<lparr>pr_building = Some wall1, pr_reason = None\<rparr>,
                        bm\<lparr>buildings :=
                              update_first (is_wall_at gridX gridY ty) (\<lambda>b. wall1) (buildings bm),
                            totalBuildingsPlaced := totalBuildingsPlaced bm + 1\<rparr>,
                        setWallHeight grid gridX gridY w h (building_stackCount wall1)))
                else Some (rejected ''Maximum stack count (3) reached'', bm, grid)
            | None \<Rightarrow> Some (rejected ''Tiles are already occupied'', bm, grid))
         else if allBlocked then Some (rejected ''Tiles are already occupied'', bm, grid)
         else if list_ex (\<lambda>c. \<not> isWalkable grid (fst c) (snd c)) (rect_cells gridX gridY w h)
         then Some (rejected ''Tiles are already occupied'', bm, grid)
         else
           (let testGrid = setBlocked (clone grid) gridX gridY w h in
            case edge_paths_ok testGrid edgeTests of
              None \<Rightarrow> None
            | Some False \<Rightarrow>
                Some (rejected ''Placement would block all paths to castle'', bm, grid)
            | Some True \<Rightarrow>
                (let building =
                       \<lparr>building_id = newId, building_type = ty, building_gridX = gridX,
                        building_gridY = gridY, building_hp = bs_hp stats,
                        building_maxHp = bs_hp stats, building_ownerId = ownerId,
                        building_lastAttackTime = 0, building_stats = stats,
                        building_stackCount = 1\<rparr>;
                     grid1 = setBlocked grid gridX gridY w h;
                     grid2 = (if bs_isWall stats then setWallHeight grid1 gridX gridY w h 1
                              else grid1)
                 in Some (\<lparr>pr_building = Some building, pr_reason = None\<rparr>,
                      bm\<lparr>buildings := js_map_set (buildings bm) newId building,
                          totalBuildingsPlaced := totalBuildingsPlaced bm + 1\<rparr>,
                      grid2)))))"

text \<open>\<open>BuildingManager.takeDamage(id, amount)\<close>.\<close>

definition Building_takeDamage ::
  "BuildingManager \<Rightarrow> string \<Rightarrow> real \<Rightarrow> (bool \<times> Building option) \<times> BuildingManager" where
  "Building_takeDamage bm i amount =
     (case js_map_get (buildings bm) i of
        None \<Rightarrow> ((False, None), bm)
      | Some building \<Rightarrow>
          (let building1 = building\<lparr>building_hp := max 0 (building_hp building - amount)\<rparr>
           in ((building_hp building1 \<le> 0, Some building1),
               bm\<lparr>buildings := js_map_set (buildings bm) i building1\<rparr>)))"

section \<open>Waves (\<open>WaveManager\<close>, \<open>EnemyManager.spawnEnemy\<close>)\<close>




















section \<open>Movement (\<open>EnemyManager.updateEnemies\<close>, \<open>ArmyManager.updateUnits\<close>)\<close>

text \<open>
  The \<open>while\<close> loop of \<open>updateEnemies\<close> that moves one enemy along its path, with the
  distance still to travel.
\<close>

function enemy_move :: "Enemy \<Rightarrow> real \<Rightarrow> Enemy" where
  "enemy_move enemy remaining =
     (if remaining > 0 \<and> enemy_pathIndex enemy < length (enemy_path enemy) then
        (let target = enemy_path enemy ! enemy_pathIndex enemy;
             dx = vx target - enemy_x enemy;
             dy = vy target - enemy_y enemy;
             distToTarget = sqrt (dx * dx + dy * dy)
         in
         if distToTarget \<le> remaining then
           enemy_move
             (enemy\<lparr>enemy_x := vx target, enemy_y := vy target,
                    enemy_pathIndex := enemy_pathIndex enemy + 1\<rparr>)
             (remaining - distToTarget)
         else
           (let ratio = remaining / distToTarget
            in enemy_move
                 (enemy\<lparr>enemy_x := enemy_x enemy + dx * ratio,
                        enemy_y := enemy_y enemy + dy * ratio\<rparr>) 0))
      else enemy)"
  by pat_completeness auto
termination
  by (relation "measure (\<lambda>(enemy, remaining).
         2 * (length (enemy_path enemy) - enemy_pathIndex enemy) +
         (if remaining > 0 then 1 else 0))")
     auto

declare enemy_move.simps [simp del]

text \<open>
  The body of the loop of \<open>updateEnemies\<close> for one enemy: the enemy after the step, and
  whether it is pushed to \<open>reachedCastle\<close>.
\<close>

definition updateEnemy :: "real \<Rightarrow> Grid \<Rightarrow> real \<Rightarrow> real \<Rightarrow> Enemy \<Rightarrow> Enemy \<times> bool" where
  "updateEnemy deltaTime grid castleX castleY enemy =
     (if length (enemy_path enemy) = 0 then
        (let dist = distance \<lparr>vx = enemy_x enemy, vy = enemy_y enemy\<rparr>
                      \<lparr>vx = castleX, vy = castleY\<rparr>
         in (enemy, dist \<le> 2))
      else
        (let effectiveSpeed =
               (if enemy_canClimbWalls enemy then
                  (let tileX = \<lfloor>enemy_x enemy\<rfloor>;
                       tileY = \<lfloor>enemy_y enemy\<rfloor>;
                       wallH = getWallHeight grid tileX tileY
                   in if wallH > 0 then enemy_speed enemy / (1 + real wallH)
                      else enemy_speed enemy)
                else enemy_speed enemy);
             moveDistance = effectiveSpeed * deltaTime;
             enemy1 = enemy_move enemy moveDistance
         in
         if enemy_pathIndex enemy1 \<ge> length (enemy_path enemy1) then
           (let dist = distance \<lparr>vx = enemy_x enemy1, vy = enemy_y enemy1\<rparr>
                         \<lparr>vx = castleX, vy = castleY\<rparr>
            in (enemy1, dist \<le> 3))
         else (enemy1, False)))"

text \<open>
  \<open>updateEnemies(deltaTime, grid, castleX, castleY)\<close>: the enemies in the order of the
  map; the result is \<open>reachedCastle\<close> and the manager.
\<close>

definition updateEnemies ::
  "EnemyManager \<Rightarrow> real \<Rightarrow> Grid \<Rightarrow> real \<Rightarrow> real \<Rightarrow> Enemy list \<times> EnemyManager" where
  "updateEnemies em deltaTime grid castleX castleY =
     (let results = map (\<lambda>kv. (fst kv, updateEnemy deltaTime grid castleX castleY (snd kv)))
                      (enemies em)
      in (map (\<lambda>kr. fst (snd kr)) (filter (\<lambda>kr. snd (snd kr)) results),
          em\<lparr>enemies := map (\<lambda>kr. (fst kr, fst (snd kr))) results\<rparr>))"

datatype ArmyUnitType = Swordsman | Archer | Mage | Knight | Commander

record ArmyUnit =
  unit_id :: string
  unit_type :: ArmyUnitType
  unit_ownerId :: string
  unit_targetPlayerId :: string
  unit_x :: real
  unit_y :: real
  unit_hp :: real
  unit_maxHp :: real
  unit_speed :: real
  unit_damage :: real
  unit_range :: real
  unit_attackSpeed :: real
  unit_path :: "Vec2 list"
  unit_pathIndex :: nat
  unit_lastAttackTime :: real
  unit_special :: "string option"

record ArmyManager =
  units :: "(string \<times> ArmyUnit) list"

definition Army_init :: ArmyManager where
  "Army_init = \<lparr>units = []\<rparr>"

definition getUnit :: "ArmyManager \<Rightarrow> string \<Rightarrow> ArmyUnit option" where
  "getUnit am i = js_map_get (units am) i"

definition getAllUnits :: "ArmyManager \<Rightarrow> ArmyUnit list" where
  "getAllUnits am = js_map_values (units am)"

text \<open>The \<open>while\<close> loop of \<open>updateUnits\<close> that moves one unit along its path.\<close>

function unit_move :: "ArmyUnit \<Rightarrow> real \<Rightarrow> ArmyUnit" where
  "unit_move unit remaining =
     (if remaining > 0 \<and> unit_pathIndex unit < length (unit_path unit) then
        (let target = unit_path unit ! unit_pathIndex unit;
             dx = vx target - unit_x unit;
             dy = vy target - unit_y unit;
             distToTarget = sqrt (dx * dx + dy * dy)
         in
         if distToTarget \<le> remaining then
           unit_move
             (unit\<lparr>unit_x := vx target, unit_y := vy target,
                   unit_pathIndex := unit_pathIndex unit + 1\<rparr>)
             (remaining - distToTarget)
         else
           (let ratio = remaining / distToTarget
            in unit_move
                 (unit\<lparr>unit_x := unit_x unit + dx * ratio,
                       unit_y := unit_y unit + dy * ratio\<rparr>) 0))
      else unit)"
  by pat_completeness auto
termination
  by (relation "measure (\<lambda>(unit, remaining).
         2 * (length (unit_path unit) - unit_pathIndex unit) +
         (if remaining > 0 then 1 else 0))")
     auto

declare unit_move.simps [simp del]

text \<open>
  The body of the loop of \<open>updateUnits\<close> for one unit: the unit after the step, and
  whether it is pushed to \<open>reachedTarget\<close>.
\<close>

definition updateUnit :: "real \<Rightarrow> Grid \<Rightarrow> ArmyUnit \<Rightarrow> ArmyUnit \<times> bool" where
  "updateUnit deltaTime grid unit =
     (if length (unit_path unit) = 0 then (unit, True)
      else
        (let moveDistance = unit_speed unit * deltaTime;
             unit1 = unit_move unit moveDistance
         in (unit1, unit_pathIndex unit1 \<ge> length (unit_path unit1))))"

text \<open>\<open>updateUnits(deltaTime, grid)\<close>: the result is \<open>reachedTarget\<close> and the manager.\<close>

definition updateUnits :: "ArmyManager \<Rightarrow> real \<Rightarrow> Grid \<Rightarrow> ArmyUnit list \<times> ArmyManager" where
  "updateUnits am deltaTime grid =
     (let results = map (\<lambda>kv. (fst kv, updateUnit deltaTime grid (snd kv))) (units am)
      in (map (\<lambda>kr. fst (snd kr)) (filter (\<lambda>kr. snd (snd kr)) results),
          am\<lparr>units := map (\<lambda>kr. (fst kr, fst (snd kr))) results\<rparr>))"

text \<open>\<open>ArmyManager.takeDamage(id, amount)\<close>.\<close>

definition Army_takeDamage :: "ArmyManager \<Rightarrow> string \<Rightarrow> real \<Rightarrow> bool \<times> ArmyManager" where
  "Army_takeDamage am i amount =
     (case js_map_get (units am) i of
        None \<Rightarrow> (False, am)
      | Some unit \<Rightarrow>
          (let unit1 = unit\<lparr>unit_hp := max 0 (unit_hp unit - amount)\<rparr>
           in if unit_hp unit1 \<le> 0 then (True, am\<lparr>units := js_map_delete (units am) i\<rparr>)
              else (False, am\<lparr>units := js_map_set (units am) i unit1\<rparr>)))"

section \<open>Auxiliary predicates of the proofs\<close>




text \<open>The scan returns an open node that is minimal for \<open>f\<close>, then \<open>h\<close>.\<close>

definition node_le :: "AStarNode \<Rightarrow> AStarNode \<Rightarrow> bool" where
  "node_le a b = (node_f a < node_f b \<or> (node_f a = node_f b \<and> node_h a \<le> node_h b))"

definition fresh_node :: "AStarNode \<Rightarrow> int \<Rightarrow> int \<Rightarrow> int \<times> int \<Rightarrow> AStarNode" where
  "fresh_node current ex ey n =
     AStarNode (fst n) (snd n) (node_g current + 1) (manhattan (fst n) (snd n) ex ey)
       (node_g current + 1 + manhattan (fst n) (snd n) ex ey) (Some current)"

definition improved_node :: "AStarNode \<Rightarrow> AStarNode \<Rightarrow> AStarNode" where
  "improved_node current existing =
     AStarNode (node_x existing) (node_y existing) (node_g current + 1) (node_h existing)
       (node_g current + 1 + node_h existing) (Some current)"



text \<open>
  The invariant of the search on any grid. Every open node sits at its key, in bounds
  and outside the closed set, on a cell connected to the start; the start is open or
  closed; every walkable neighbour of a closed cell is open or closed; the end is not
  closed.
\<close>

definition search_inv ::
  "Grid \<Rightarrow> int \<times> int \<Rightarrow> int \<times> int \<Rightarrow> openMap \<Rightarrow> (int \<times> int) set \<Rightarrow> bool" where
  "search_inv grid s e om cl =
     ((\<forall>kn \<in> set om. fst kn \<notin> cl \<and> isInBounds grid (fst (fst kn)) (snd (fst kn)) \<and>
           node_x (snd kn) = fst (fst kn) \<and> node_y (snd kn) = snd (fst kn) \<and>
           fst kn \<in> reach grid s) \<and>
      s \<in> cl \<union> fst ` set om \<and>
      (\<forall>c \<in> cl. \<forall>n \<in> set (getNeighbors grid (fst c) (snd c)). n \<in> cl \<union> fst ` set om) \<and>
      e \<notin> cl)"

text \<open>The search reads the grid only through \<open>isInBounds\<close> and \<open>isWalkable\<close>.\<close>

definition same_cells :: "Grid \<Rightarrow> Grid \<Rightarrow> bool" where
  "same_cells g1 g2 =
     (\<forall>px py. isInBounds g1 px py = isInBounds g2 px py \<and>
              isWalkable g1 px py = isWalkable g2 px py)"

text \<open>
  What the check establishes for one edge midpoint: the castle centre of the map
  configuration is in bounds, \<open>findPath\<close> resolves an end cell for it, and that cell is
  connected to the midpoint.
\<close>

definition edge_connected :: "Grid \<Rightarrow> int \<times> int \<Rightarrow> bool" where
  "edge_connected g m =
     (isInBounds g MAP_castleCenterX MAP_castleCenterY \<and>
      (\<exists>t. actualEnd g (fst m) (snd m) MAP_castleCenterX MAP_castleCenterY = Some t \<and>
           t \<in> reach g m))"



section \<open>Concrete sessions used to instantiate the theorems\<close>

definition fx_zombie :: Enemy where
  "fx_zombie = \<lparr>enemy_id = ''z1'', enemy_type = NormalZombie, enemy_x = 21, enemy_y = 20,
     enemy_hp = 50, enemy_maxHp = 50, enemy_speed = 1, enemy_damage = 5, enemy_path = [],
     enemy_pathIndex = 0, enemy_goldReward = 5, enemy_special = None,
     enemy_lastSpecialTime = 0, enemy_canClimbWalls = False\<rparr>"

definition fx_enemies :: EnemyManager where
  "fx_enemies = \<lparr>enemies = [(''z1'', fx_zombie)], totalKills = 0\<rparr>"

definition fx_engine1 :: GameEngine where
  "fx_engine1 = GameEngine_init [''p1'']"

definition fx_engine_poor :: GameEngine where
  "fx_engine_poor =
     snd (handleRepairCastle ''p1''
       (snd (handleRepairCastle ''p1''
         (snd (handleRepairCastle ''p1''
           (snd (handleRepairCastle ''p1''
             (snd (handleUpgradeCastle Treasury ''p1'' fx_engine1)))))))))"

definition fx_castle :: PlayerCastle where
  "fx_castle = \<lparr>castle_playerId = ''p1'', castle_hp = 1000, castle_maxHp = 1000,
     castle_centerX = 20, castle_centerY = 20, castle_purchasedUpgrades = {},
     castle_goldBonusPerKill = 0, castle_lastKingAttackTime = 0\<rparr>"

definition fx_engine2 :: GameEngine where
  "fx_engine2 = GameEngine_init [''p1'', ''p2'']"

definition fx_kill_no_owner :: KillInfo where
  "fx_kill_no_owner = \<lparr>kill_enemyId = ''z1'', kill_goldReward = 5,
     kill_killedByBuildingOwnerId = None\<rparr>"

definition fx_kill_by_p2 :: KillInfo where
  "fx_kill_by_p2 = \<lparr>kill_enemyId = ''z1'', kill_goldReward = 5,
     kill_killedByBuildingOwnerId = Some ''p2''\<rparr>"


definition fx_grid1 :: Grid where
  "fx_grid1 = initCastles Grid_new [(20, 20)]"

text \<open>A wooden wall on the north midpoint (20, 0) of the fresh one-player map.\<close>

definition fx_north_wall :: Building where
  "fx_north_wall =
     \<lparr>building_id = ''w1'', building_type = WoodenWall, building_gridX = 20,
      building_gridY = 0, building_hp = 100, building_maxHp = 100, building_ownerId = ''p1'',
      building_lastAttackTime = 0, building_stats = BUILDING_STATS WoodenWall,
      building_stackCount = 1\<rparr>"

definition fx_north_grid :: Grid where
  "fx_north_grid = setWallHeight (setBlocked fx_grid1 20 0 1 1) 20 0 1 1 1"



definition fx_wall_grid1 :: Grid where
  "fx_wall_grid1 = setWallHeight (setBlocked fx_grid1 10 10 1 1) 10 10 1 1 1"




text \<open>
  An enemy and a swordsman at the same tile, with the same speed and the same one-point
  path two tiles to the east.
\<close>

definition fx_walker :: "real \<Rightarrow> real \<Rightarrow> Enemy" where
  "fx_walker px py =
     \<lparr>enemy_id = ''e1'', enemy_type = NormalZombie, enemy_x = px, enemy_y = py, enemy_hp = 80,
      enemy_maxHp = 80, enemy_speed = 1, enemy_damage = 5,
      enemy_path = [\<lparr>vx = px + 2, vy = py\<rparr>], enemy_pathIndex = 0, enemy_goldReward = 5,
      enemy_special = None, enemy_lastSpecialTime = 0, enemy_canClimbWalls = True\<rparr>"

definition fx_swordsman :: "real \<Rightarrow> real \<Rightarrow> ArmyUnit" where
  "fx_swordsman px py =
     \<lparr>unit_id = ''u1'', unit_type = Swordsman, unit_ownerId = ''p1'',
      unit_targetPlayerId = ''p2'', unit_x = px, unit_y = py, unit_hp = 60, unit_maxHp = 60,
      unit_speed = 1, unit_damage = 8, unit_range = 15 / 10, unit_attackSpeed = 1,
      unit_path = [\<lparr>vx = px + 2, vy = py\<rparr>], unit_pathIndex = 0, unit_lastAttackTime = 0,
      unit_special = None\<rparr>"

section \<open>Properties\<close>

subsection \<open>Maps\<close>


lemma js_map_get_set:
  "js_map_get (js_map_set m k v) k' = (if k' = k then Some v else js_map_get m k')"
  by (induction m) (auto simp: js_map_get_def)

lemma js_map_get_delete:
  "js_map_get (js_map_delete m k) k' = (if k' = k then None else js_map_get m k')"
  by (induction m) (auto simp: js_map_get_def js_map_delete_def)

lemma takeDamage_absent:
  "js_map_get (enemies em) i = None \<Longrightarrow>
   Enemy_takeDamage em i amount = (\<lparr>tdr_killed = False, tdr_goldReward = 0\<rparr>, em)"
  by (simp add: Enemy_takeDamage_def)

lemma takeDamage_keeps_absent:
  "js_map_get (enemies em) i = None \<Longrightarrow>
   js_map_get (enemies (snd (Enemy_takeDamage em j amount))) i = None"
  by (auto simp: Enemy_takeDamage_def Let_def js_map_get_set js_map_get_delete
      split: option.splits)

lemma takeDamage_calls_absent:
  "js_map_get (enemies em) i = None \<Longrightarrow>
   \<forall>r. (i, r) \<in> set (fst (takeDamage_calls em cs)) \<longrightarrow>
       r = \<lparr>tdr_killed = False, tdr_goldReward = 0\<rparr>"
proof (induction cs arbitrary: em)
  case Nil
  then show ?case by simp
next
  case (Cons c cs)
  obtain j amount where c: "c = (j, amount)" by (cases c)
  obtain r1 fx_enemies where s1: "Enemy_takeDamage em j amount = (r1, fx_enemies)"
    by (cases "Enemy_takeDamage em j amount")
  have abs1: "js_map_get (enemies fx_enemies) i = None"
    using takeDamage_keeps_absent [OF Cons.prems, of j amount] s1 by simp
  have first: "j = i \<Longrightarrow> r1 = \<lparr>tdr_killed = False, tdr_goldReward = 0\<rparr>"
    using takeDamage_absent [OF Cons.prems, of amount] s1 by simp
  from Cons.IH [OF abs1] first show ?case
    by (auto simp: c s1 split: prod.splits)
qed

text \<open>
  Claim C7. \<open>EnemyManager.takeDamage\<close> clamps the hp at 0: a call that leaves the
  clamped hp at 0 deletes the enemy, counts the kill and returns the enemy's gold reward;
  any other call returns no reward and leaves the enemy with the clamped, positive hp.
  After a kill, every later call with the same id, in any run of further calls, returns
  \<open>killed = false\<close> and \<open>goldReward = 0\<close>: the reward is paid once.
\<close>

theorem takeDamage_reward_once:
  assumes "Enemy_takeDamage em i amount = (res, em')"
  shows "(tdr_killed res \<longrightarrow>
            (\<exists>e. getEnemy em i = Some e \<and> enemy_hp e - amount \<le> 0 \<and>
                 tdr_goldReward res = enemy_goldReward e) \<and>
            getEnemy em' i = None \<and>
            totalKills em' = totalKills em + 1 \<and>
            (\<forall>cs r. (i, r) \<in> set (fst (takeDamage_calls em' cs)) \<longrightarrow>
                 r = \<lparr>tdr_killed = False, tdr_goldReward = 0\<rparr>)) \<and>
         (\<not> tdr_killed res \<longrightarrow>
            tdr_goldReward res = 0 \<and>
            (\<forall>e. getEnemy em i = Some e \<longrightarrow>
                 (\<exists>e'. getEnemy em' i = Some e' \<and>
                       enemy_hp e' = max 0 (enemy_hp e - amount) \<and> 0 < enemy_hp e')))"
proof (cases "js_map_get (enemies em) i")
  case None
  with assms show ?thesis
    by (auto simp: Enemy_takeDamage_def getEnemy_def)
next
  case (Some e)
  show ?thesis
  proof (cases "max 0 (enemy_hp e - amount) \<le> 0")
    case True
    with Some assms have res: "res = \<lparr>tdr_killed = True, tdr_goldReward = enemy_goldReward e\<rparr>"
      and em': "em' = em\<lparr>totalKills := totalKills em + 1, enemies := js_map_delete (enemies em) i\<rparr>"
      by (auto simp: Enemy_takeDamage_def Let_def)
    have gone: "js_map_get (enemies em') i = None"
      by (simp add: em' js_map_get_delete)
    from True have "enemy_hp e - amount \<le> 0" by simp
    with res em' gone Some takeDamage_calls_absent [OF gone] show ?thesis
      by (simp add: getEnemy_def)
  next
    case False
    with Some assms have res: "res = \<lparr>tdr_killed = False, tdr_goldReward = 0\<rparr>"
      and em': "em' = em\<lparr>enemies := js_map_set (enemies em) i
                  (e\<lparr>enemy_hp := max 0 (enemy_hp e - amount)\<rparr>)\<rparr>"
      by (auto simp: Enemy_takeDamage_def Let_def)
    with False Some show ?thesis
      by (simp add: getEnemy_def js_map_get_set)
  qed
qed

lemma kill_eval: "Enemy_takeDamage fx_enemies ''z1'' 50 =
   (\<lparr>tdr_killed = True, tdr_goldReward = 5\<rparr>, \<lparr>enemies = [], totalKills = 1\<rparr>)"
  by (simp add: Enemy_takeDamage_def fx_enemies_def fx_zombie_def js_map_get_def js_map_delete_def)

theorem takeDamage_reward_once_witness:
  "Enemy_takeDamage fx_enemies ''z1'' 50 =
     (\<lparr>tdr_killed = True, tdr_goldReward = 5\<rparr>, \<lparr>enemies = [], totalKills = 1\<rparr>) \<and>
   fst (takeDamage_calls \<lparr>enemies = [], totalKills = 1\<rparr> [(''z1'', 50)]) =
     [(''z1'', \<lparr>tdr_killed = False, tdr_goldReward = 0\<rparr>)]"
proof -
  have later: "fst (takeDamage_calls \<lparr>enemies = [], totalKills = 1\<rparr> [(''z1'', 50)]) =
     [(''z1'', \<lparr>tdr_killed = False, tdr_goldReward = 0\<rparr>)]"
    by (simp add: Enemy_takeDamage_def js_map_get_def)
  from takeDamage_reward_once [OF kill_eval] kill_eval later show ?thesis
    by blast
qed

subsection \<open>The castle upgrade command\<close>

lemmas upgrade_names = FortifyI_def FortifyII_def Treasury_def Repair_def

lemma js_add_sub_cancel: "js_add (js_sub g (Num a)) (Num a) = g"
  by (cases g) auto

lemma js_map_set_twice: "js_map_set (js_map_set m k a) k b = js_map_set m k b"
  by (induction m) auto

lemma js_map_set_same: "js_map_get m k = Some v \<Longrightarrow> js_map_set m k v = m"
  by (induction m) (auto simp: js_map_get_def)

lemma getGold_absent_lt:
  "js_map_get (playerGold ec) p = None \<Longrightarrow> js_lt (getGold ec p) (Num 200)"
  by (simp add: getGold_def)

lemma eng_poor_eval:
  "getGold (economyManager fx_engine_poor) ''p1'' = Num 150"
  by (simp add: fx_engine_poor_def fx_engine1_def handleRepairCastle_def handleUpgradeCastle_def
      GameEngine_init_def Economy_init_def initMultiple_def CASTLE_CONFIG_upgrades_def
      upgrade_names spendGold_def getGold_def js_map_get_def upgrade_def repair_def
      getCastle_def addGold_def setGoldBonusPerKill_def getGoldBonusPerKill_def truthy_def
      cfg_Treasury_def cfg_Repair_def startingGoldPerPlayer_def Let_def castle_position_def
      CASTLE_POSITIONS_def CASTLE_CONFIG_baseHp_def)

text \<open>
  Claim C8, as amended. A \<open>FortifyII\<close> upgrade command for a player whose castle has
  purchased neither \<open>FortifyI\<close> nor \<open>FortifyII\<close> (the second is only ever recorded
  after the first) is rejected, and the player's gold ledger entry and the castle (hp,
  maxHp, purchased upgrades) are unchanged: the spend is refunded. The gold check comes
  first, so the reason is the prerequisite error only when the player holds at least the
  cost 200, and \<open>Not enough gold\<close> otherwise.
\<close>

theorem fortifyII_prerequisite:
  assumes castle: "getCastle (castleManager eng) p = Some c"
    and no1: "FortifyI \<notin> castle_purchasedUpgrades c"
    and no2: "FortifyII \<notin> castle_purchasedUpgrades c"
    and run: "handleUpgradeCastle FortifyII p eng = (res, eng')"
  shows "\<not> cr_success res \<and>
         cr_error res =
           (if js_lt (getGold (economyManager eng) p) (Num 200) then Some ''Not enough gold''
            else Some ''FortifyI required first'') \<and>
         playerGold (economyManager eng') = playerGold (economyManager eng) \<and>
         getGold (economyManager eng') p = getGold (economyManager eng) p \<and>
         castleManager eng' = castleManager eng \<and>
         getCastle (castleManager eng') p = Some c"
proof -
  have cfg: "CASTLE_CONFIG_upgrades FortifyII = Own cfg_FortifyII"
    by (simp add: CASTLE_CONFIG_upgrades_def upgrade_names)
  have cost: "prop_cost (Own cfg_FortifyII) = Num 200"
    by (simp add: cfg_FortifyII_def)
  have up: "upgrade (castleManager eng) p FortifyII =
      (\<lparr>ur_success = False, ur_cost = 0, ur_reason = Some ''FortifyI required first''\<rparr>,
       castleManager eng)"
    using castle no1 no2 by (simp add: upgrade_def upgrade_names)
  show ?thesis
  proof (cases "js_lt (getGold (economyManager eng) p) (Num 200)")
    case True
    with run cfg cost show ?thesis
      using castle by (auto simp: handleUpgradeCastle_def cfg_FortifyII_def spendGold_def Let_def)
  next
    case False
    then obtain g where g: "js_map_get (playerGold (economyManager eng)) p = Some g"
      using getGold_absent_lt [of "economyManager eng" p] by (cases "js_map_get (playerGold (economyManager eng)) p") auto
    then have gg: "getGold (economyManager eng) p = g" by (simp add: getGold_def)
    let ?ec1 = "(economyManager eng)\<lparr>playerGold :=
        js_map_set (playerGold (economyManager eng)) p (js_sub g (Num 200))\<rparr>"
    have sp: "spendGold (economyManager eng) p (Num 200) = (True, ?ec1)"
      using False gg by (simp add: spendGold_def Let_def)
    have g1: "getGold ?ec1 p = js_sub g (Num 200)"
      by (simp add: getGold_def js_map_get_set)
    have restored: "playerGold (addGold ?ec1 p (Num 200)) = playerGold (economyManager eng)"
      by (simp add: addGold_def g1 js_add_sub_cancel js_map_set_twice js_map_set_same [OF g])
    from run have res: "res = \<lparr>cr_success = False, cr_error = Some ''FortifyI required first''\<rparr>"
      and eng': "eng' = eng\<lparr>economyManager := addGold ?ec1 p (Num 200),
                           castleManager := castleManager eng\<rparr>"
      by (auto simp: handleUpgradeCastle_def cfg cfg_FortifyII_def sp up)
    from res eng' restored False castle show ?thesis
      by (simp add: getGold_def)
  qed
qed

lemmas engine_defs =
  fx_engine1_def handleRepairCastle_def handleUpgradeCastle_def
  GameEngine_init_def Economy_init_def initMultiple_def CASTLE_CONFIG_upgrades_def
  upgrade_names spendGold_def getGold_def js_map_get_def upgrade_def repair_def
  getCastle_def addGold_def setGoldBonusPerKill_def getGoldBonusPerKill_def truthy_def
  cfg_FortifyI_def cfg_FortifyII_def cfg_Treasury_def cfg_Repair_def
  startingGoldPerPlayer_def Let_def castle_position_def
  CASTLE_POSITIONS_def CASTLE_CONFIG_baseHp_def Object_prototype_keys_def

text \<open>
  The claim as stated fails for a player who holds less than the cost: after buying
  \<open>Treasury\<close> and four repairs the player has 150 gold, no \<open>FortifyI\<close>, and the
  \<open>FortifyII\<close> command answers \<open>Not enough gold\<close>, not the prerequisite error.
\<close>

theorem fortifyII_poor_player_counterexample:
  "(case getCastle (castleManager fx_engine_poor) ''p1'' of
      None \<Rightarrow> False
    | Some c \<Rightarrow> FortifyI \<notin> castle_purchasedUpgrades c) \<and>
   getGold (economyManager fx_engine_poor) ''p1'' = Num 150 \<and>
   cr_error (fst (handleUpgradeCastle FortifyII ''p1'' fx_engine_poor)) = Some ''Not enough gold''"
  by (simp add: fx_engine_poor_def engine_defs)

theorem fortifyII_prerequisite_witness:
  "getCastle (castleManager fx_engine1) ''p1'' = Some fx_castle \<and>
   cr_error (fst (handleUpgradeCastle FortifyII ''p1'' fx_engine1)) = Some ''FortifyI required first'' \<and>
   getGold (economyManager (snd (handleUpgradeCastle FortifyII ''p1'' fx_engine1))) ''p1'' = Num 500 \<and>
   getCastle (castleManager (snd (handleUpgradeCastle FortifyII ''p1'' fx_engine1))) ''p1'' = Some fx_castle"
proof -
  have c: "getCastle (castleManager fx_engine1) ''p1'' = Some fx_castle"
    by (simp add: engine_defs fx_castle_def)
  have n1: "FortifyI \<notin> castle_purchasedUpgrades fx_castle"
    and n2: "FortifyII \<notin> castle_purchasedUpgrades fx_castle"
    by (simp_all add: fx_castle_def)
  have g: "getGold (economyManager fx_engine1) ''p1'' = Num 500"
    by (simp add: engine_defs)
  have r: "handleUpgradeCastle FortifyII ''p1'' fx_engine1 =
      (fst (handleUpgradeCastle FortifyII ''p1'' fx_engine1), snd (handleUpgradeCastle FortifyII ''p1'' fx_engine1))"
    by simp
  from fortifyII_prerequisite [OF c n1 n2 r] c g show ?thesis
    by simp
qed

subsection \<open>Kill rewards\<close>

lemma js_map_get_map_values:
  "js_map_get (map (\<lambda>kv. (fst kv, js_add (snd kv) a)) m) p =
   map_option (\<lambda>v. js_add v a) (js_map_get m p)"
  by (induction m) (auto simp: js_map_get_def)

lemma foldl_js_add_NaN: "foldl js_add NaN vs = NaN"
  by (induction vs) auto

lemma foldl_js_add_shift: "foldl js_add (js_add x (Num a)) vs = js_add (foldl js_add x vs) (Num a)"
proof (induction vs arbitrary: x)
  case Nil
  then show ?case by simp
next
  case (Cons v vs)
  have "js_add (js_add x (Num a)) v = js_add (js_add x v) (Num a)"
    by (cases x; cases v) auto
  with Cons show ?case by simp
qed

lemma foldl_js_add_all:
  "foldl js_add acc (map (\<lambda>v. js_add v (Num a)) vs) =
   js_add (foldl js_add acc vs) (Num (of_nat (length vs) * a))"
proof (induction vs arbitrary: acc)
  case Nil
  then show ?case by (cases acc) auto
next
  case (Cons v vs)
  have "js_add acc (js_add v (Num a)) = js_add (js_add acc v) (Num a)"
    by (cases acc; cases v) auto
  then have "foldl js_add acc (map (\<lambda>v. js_add v (Num a)) (v # vs)) =
      js_add (js_add (foldl js_add (js_add acc v) vs) (Num a)) (Num (of_nat (length vs) * a))"
    by (simp add: Cons.IH foldl_js_add_shift)
  also have "\<dots> = js_add (foldl js_add (js_add acc v) vs) (Num (of_nat (length (v # vs)) * a))"
    by (cases "foldl js_add (js_add acc v) vs") (auto simp: algebra_simps)
  finally show ?case by simp
qed

lemma getTotalGold_addGoldAll:
  "getTotalGold (addGoldAll ec (Num a)) =
   js_add (getTotalGold ec) (Num (of_nat (length (playerGold ec)) * a))"
  using foldl_js_add_all [of "Num 0" a "map snd (playerGold ec)"]
  by (simp add: getTotalGold_def addGoldAll_def js_map_values_def comp_def)

text \<open>
  Claim C3, as amended. A kill whose owner id is truthy adds the reward plus that owner's
  treasury bonus to the owner and to nobody else. A kill without a truthy owner id is not
  split: every player of the ledger receives the full reward plus the largest treasury
  bonus, so the gold added over all players is the number of players times that amount.
\<close>

theorem kill_reward_routing:
  "(\<forall>owner. kill_killedByBuildingOwnerId kill = Some owner \<and> owner \<noteq> [] \<longrightarrow>
      getGold (economyManager (processKill eng kill)) owner =
        js_add (getGold (economyManager eng) owner)
          (Num (kill_goldReward kill + getGoldBonusPerKill (castleManager eng) (Some owner))) \<and>
      (\<forall>p. p \<noteq> owner \<longrightarrow>
         getGold (economyManager (processKill eng kill)) p = getGold (economyManager eng) p)) \<and>
   (\<not> truthy (kill_killedByBuildingOwnerId kill) \<longrightarrow>
      (\<forall>p g. js_map_get (playerGold (economyManager eng)) p = Some g \<longrightarrow>
         getGold (economyManager (processKill eng kill)) p =
           js_add g (Num (kill_goldReward kill + getGoldBonusPerKill (castleManager eng) None))) \<and>
      getTotalGold (economyManager (processKill eng kill)) =
        js_add (getTotalGold (economyManager eng))
          (Num (of_nat (length (playerGold (economyManager eng))) *
                (kill_goldReward kill + getGoldBonusPerKill (castleManager eng) None))))"
proof (intro conjI allI impI)
  fix owner
  assume o: "kill_killedByBuildingOwnerId kill = Some owner \<and> owner \<noteq> []"
  then have pk: "processKill eng kill =
      eng\<lparr>economyManager := addGold (economyManager eng) owner
            (Num (kill_goldReward kill + getGoldBonusPerKill (castleManager eng) (Some owner)))\<rparr>"
    by (simp add: processKill_def truthy_def Let_def)
  show "getGold (economyManager (processKill eng kill)) owner =
        js_add (getGold (economyManager eng) owner)
          (Num (kill_goldReward kill + getGoldBonusPerKill (castleManager eng) (Some owner)))"
    by (simp add: pk addGold_def getGold_def js_map_get_set)
  fix p
  assume "p \<noteq> owner"
  then show "getGold (economyManager (processKill eng kill)) p = getGold (economyManager eng) p"
    by (simp add: pk addGold_def getGold_def js_map_get_set)
next
  assume f: "\<not> truthy (kill_killedByBuildingOwnerId kill)"
  then have pk: "processKill eng kill =
      eng\<lparr>economyManager := addGoldAll (economyManager eng)
            (Num (kill_goldReward kill + getGoldBonusPerKill (castleManager eng) None))\<rparr>"
    by (simp add: processKill_def Let_def)
  show "getTotalGold (economyManager (processKill eng kill)) =
        js_add (getTotalGold (economyManager eng))
          (Num (of_nat (length (playerGold (economyManager eng))) *
                (kill_goldReward kill + getGoldBonusPerKill (castleManager eng) None)))"
    by (simp add: pk getTotalGold_addGoldAll)
  fix p g
  assume "js_map_get (playerGold (economyManager eng)) p = Some g"
  then show "getGold (economyManager (processKill eng kill)) p =
           js_add g (Num (kill_goldReward kill + getGoldBonusPerKill (castleManager eng) None))"
    by (simp add: pk addGoldAll_def getGold_def js_map_get_map_values)
qed

lemmas kill_defs =
  fx_engine2_def fx_kill_no_owner_def fx_kill_by_p2_def processKill_def addGoldAll_def getTotalGold_def
  js_map_values_def getAllCastles_def

text \<open>
  With two players and an ownerless kill worth 5, each player receives 5: the ledger
  total grows by 10, not by one reward.
\<close>

theorem kill_reward_split_counterexample:
  "kill_goldReward fx_kill_no_owner = 5 \<and>
   getTotalGold (economyManager fx_engine2) = Num 1000 \<and>
   getTotalGold (economyManager (processKill fx_engine2 fx_kill_no_owner)) = Num 1010 \<and>
   getGold (economyManager (processKill fx_engine2 fx_kill_no_owner)) ''p1'' = Num 505 \<and>
   getGold (economyManager (processKill fx_engine2 fx_kill_no_owner)) ''p2'' = Num 505"
  by (simp add: kill_defs engine_defs)

theorem kill_reward_routing_witness:
  "getGold (economyManager (processKill fx_engine2 fx_kill_by_p2)) ''p2'' = Num 505 \<and>
   getGold (economyManager (processKill fx_engine2 fx_kill_by_p2)) ''p1'' = Num 500 \<and>
   getTotalGold (economyManager (processKill fx_engine2 fx_kill_no_owner)) = Num 1010"
proof -
  have o: "kill_killedByBuildingOwnerId fx_kill_by_p2 = Some ''p2'' \<and> ''p2'' \<noteq> []"
    by (simp add: fx_kill_by_p2_def)
  have f: "\<not> truthy (kill_killedByBuildingOwnerId fx_kill_no_owner)"
    by (simp add: fx_kill_no_owner_def truthy_def)
  have g: "getGold (economyManager fx_engine2) ''p2'' = Num 500"
      "getGold (economyManager fx_engine2) ''p1'' = Num 500"
      "getTotalGold (economyManager fx_engine2) = Num 1000"
      "length (playerGold (economyManager fx_engine2)) = 2"
      "getGoldBonusPerKill (castleManager fx_engine2) (Some ''p2'') = 0"
      "getGoldBonusPerKill (castleManager fx_engine2) None = 0"
      "kill_goldReward fx_kill_by_p2 = 5" "kill_goldReward fx_kill_no_owner = 5"
    by (simp_all add: kill_defs engine_defs getAllCastles_def)
  have a: "getGold (economyManager (processKill fx_engine2 fx_kill_by_p2)) ''p2'' = Num 505"
    using kill_reward_routing [of fx_kill_by_p2 fx_engine2] o g by simp
  have b: "getGold (economyManager (processKill fx_engine2 fx_kill_by_p2)) ''p1'' = Num 500"
    using kill_reward_routing [of fx_kill_by_p2 fx_engine2] o g by simp
  have c: "getTotalGold (economyManager (processKill fx_engine2 fx_kill_no_owner)) = Num 1010"
    using kill_reward_routing [of fx_kill_no_owner fx_engine2] f g by simp
  from a b c show ?thesis by simp
qed

text \<open>
  Claim C2 (the code diverges). The upgrade type arrives as a string and is looked up with
  \<open>CASTLE_CONFIG.upgrades[type]\<close>; the guard \<open>if (!cfg)\<close> rejects unknown strings but
  not the names every object inherits. For \<open>constructor\<close> the cost is \<open>undefined\<close>,
  \<open>spendGold\<close> does not reject (\<open>500 < undefined\<close> is false) and stores \<open>NaN\<close>; the
  refund after the failed upgrade keeps it. From then on no spend of that player is
  rejected.
\<close>

theorem inherited_upgrade_key_gold_NaN:
  "CASTLE_CONFIG_upgrades ''constructor'' = Inherited \<and>
   getGold (economyManager fx_engine1) ''p1'' = Num 500 \<and>
   cr_error (fst (handleUpgradeCastle ''constructor'' ''p1'' fx_engine1)) = Some ''Unknown upgrade type'' \<and>
   getGold (economyManager (snd (handleUpgradeCastle ''constructor'' ''p1'' fx_engine1))) ''p1'' = NaN \<and>
   fst (spendGold (economyManager (snd (handleUpgradeCastle ''constructor'' ''p1'' fx_engine1)))
          ''p1'' (Num 1000000))"
  by (simp add: engine_defs)

subsection \<open>The castle king\<close>









subsection \<open>Grid\<close>

lemma in_rect_cells:
  "(c \<in> set (rect_cells px py w h)) =
   (px \<le> fst c \<and> fst c < px + w \<and> py \<le> snd c \<and> snd c < py + h)"
proof (cases c)
  case (Pair a b)
  have "((a, b) \<in> set (rect_cells px py w h)) =
        (\<exists>dx \<in> {0..w - 1}. \<exists>dy \<in> {0..h - 1}. a = px + dx \<and> b = py + dy)"
    by (auto simp: rect_cells_def)
  also have "\<dots> = (px \<le> a \<and> a < px + w \<and> py \<le> b \<and> b < py + h)"
  proof
    assume "px \<le> a \<and> a < px + w \<and> py \<le> b \<and> b < py + h"
    then have "a - px \<in> {0..w - 1}" "b - py \<in> {0..h - 1}"
      "a = px + (a - px)" "b = py + (b - py)"
      by auto
    then show "\<exists>dx \<in> {0..w - 1}. \<exists>dy \<in> {0..h - 1}. a = px + dx \<and> b = py + dy"
      by blast
  qed auto
  finally show ?thesis by (simp add: Pair)
qed

lemma foldl_mark_fields:
  "grid_width (foldl (mark_cell v) g cs) = grid_width g \<and>
   grid_height (foldl (mark_cell v) g cs) = grid_height g \<and>
   grid_wallHeight (foldl (mark_cell v) g cs) = grid_wallHeight g \<and>
   grid_castlePositions (foldl (mark_cell v) g cs) = grid_castlePositions g"
  by (induction cs arbitrary: g) (auto simp: mark_cell_def)

lemma foldl_height_fields:
  "grid_width (foldl (height_cell v) g cs) = grid_width g \<and>
   grid_height (foldl (height_cell v) g cs) = grid_height g \<and>
   grid_walkable (foldl (height_cell v) g cs) = grid_walkable g \<and>
   grid_castlePositions (foldl (height_cell v) g cs) = grid_castlePositions g"
  by (induction cs arbitrary: g) (auto simp: height_cell_def)

lemma foldl_mark_walkable:
  "isInBounds g px py \<Longrightarrow>
   grid_walkable (foldl (mark_cell v) g cs) (px, py) =
   (if (px, py) \<in> set cs then v else grid_walkable g (px, py))"
proof (induction cs arbitrary: g)
  case Nil
  then show ?case by simp
next
  case (Cons c cs)
  have b: "isInBounds (mark_cell v g c) px py"
    using Cons.prems by (simp add: isInBounds_def mark_cell_def)
  have "grid_walkable (mark_cell v g c) (px, py) =
        (if (px, py) = c then v else grid_walkable g (px, py))"
    using Cons.prems by (cases c) (auto simp: mark_cell_def)
  with Cons.IH [OF b] show ?case by auto
qed

lemma foldl_height_wallHeight:
  "isInBounds g px py \<Longrightarrow>
   grid_wallHeight (foldl (height_cell v) g cs) (px, py) =
   (if (px, py) \<in> set cs then v else grid_wallHeight g (px, py))"
proof (induction cs arbitrary: g)
  case Nil
  then show ?case by simp
next
  case (Cons c cs)
  have b: "isInBounds (height_cell v g c) px py"
    using Cons.prems by (simp add: isInBounds_def height_cell_def)
  have "grid_wallHeight (height_cell v g c) (px, py) =
        (if (px, py) = c then v else grid_wallHeight g (px, py))"
    using Cons.prems by (cases c) (auto simp: height_cell_def)
  with Cons.IH [OF b] show ?case by auto
qed

lemma isInBounds_setBlocked [simp]:
  "isInBounds (setBlocked g px py w h) qx qy = isInBounds g qx qy"
  by (simp add: isInBounds_def setBlocked_def foldl_mark_fields)

lemma isInBounds_setWalkable [simp]:
  "isInBounds (setWalkable g px py w h) qx qy = isInBounds g qx qy"
  by (simp add: isInBounds_def setWalkable_def foldl_mark_fields)

lemma isInBounds_setWallHeight [simp]:
  "isInBounds (setWallHeight g px py w h v) qx qy = isInBounds g qx qy"
  by (simp add: isInBounds_def setWallHeight_def foldl_height_fields)

lemma isWalkable_setWallHeight [simp]:
  "isWalkable (setWallHeight g px py w h v) qx qy = isWalkable g qx qy"
  by (simp add: isWalkable_def) (simp add: setWallHeight_def foldl_height_fields)

lemma getWallHeight_setWallHeight:
  "getWallHeight (setWallHeight g px py w h v) qx qy =
   (if isInBounds g qx qy \<and> px \<le> qx \<and> qx < px + w \<and> py \<le> qy \<and> qy < py + h then v
    else getWallHeight g qx qy)"
proof (cases "isInBounds g qx qy")
  case True
  then show ?thesis
    using foldl_height_wallHeight [OF True, of v "rect_cells px py w h"]
    by (simp add: getWallHeight_def in_rect_cells) (simp add: setWallHeight_def)
next
  case False
  then show ?thesis by (simp add: getWallHeight_def)
qed

lemma getWallHeight_setBlocked [simp]:
  "getWallHeight (setBlocked g px py w h) qx qy = getWallHeight g qx qy"
  by (simp add: getWallHeight_def) (simp add: setBlocked_def foldl_mark_fields)

lemma isWalkable_setBlocked:
  "isWalkable (setBlocked g px py w h) qx qy =
   (isWalkable g qx qy \<and> \<not> (px \<le> qx \<and> qx < px + w \<and> py \<le> qy \<and> qy < py + h))"
proof (cases "isInBounds g qx qy")
  case True
  have "grid_walkable (setBlocked g px py w h) (qx, qy) =
        (if px \<le> qx \<and> qx < px + w \<and> py \<le> qy \<and> qy < py + h then False
         else grid_walkable g (qx, qy))"
    using foldl_mark_walkable [OF True, of False "rect_cells px py w h"]
    by (simp add: in_rect_cells setBlocked_def)
  with True show ?thesis by (simp add: isWalkable_def)
next
  case False
  then show ?thesis by (simp add: isWalkable_def)
qed

lemma isWalkable_setWalkable:
  "isWalkable (setWalkable g px py w h) qx qy =
   (isInBounds g qx qy \<and>
    (isWalkable g qx qy \<or> (px \<le> qx \<and> qx < px + w \<and> py \<le> qy \<and> qy < py + h)))"
proof (cases "isInBounds g qx qy")
  case True
  have "grid_walkable (setWalkable g px py w h) (qx, qy) =
        (if px \<le> qx \<and> qx < px + w \<and> py \<le> qy \<and> qy < py + h then True
         else grid_walkable g (qx, qy))"
    using foldl_mark_walkable [OF True, of True "rect_cells px py w h"]
    by (simp add: in_rect_cells setWalkable_def)
  with True show ?thesis by (auto simp: isWalkable_def)
next
  case False
  then show ?thesis by (simp add: isWalkable_def)
qed

subsection \<open>The open map\<close>

lemma js_map_get_SomeD: "js_map_get m k = Some v \<Longrightarrow> (k, v) \<in> set m"
  by (simp add: js_map_get_def map_of_SomeD)

lemma js_map_get_None: "(js_map_get m k = None) = (k \<notin> fst ` set m)"
  by (simp add: js_map_get_def map_of_eq_None_iff)

lemma set_js_map_delete: "set (js_map_delete m k) = {kv \<in> set m. fst kv \<noteq> k}"
  by (auto simp: js_map_delete_def)

lemma set_js_map_set: "set (js_map_set m k v) \<subseteq> insert (k, v) (set m)"
  by (induction m) (auto split: if_splits)



lemma keys_js_map_set: "fst ` set (js_map_set m k v) = insert k (fst ` set m)"
proof (induction m)
  case Nil
  then show ?case by simp
next
  case (Cons a m)
  then show ?case by (cases a) (auto split: if_splits)
qed

lemma lowest_scan:
  "\<exists>n. foldl (\<lambda>current node.
              case current of
                None \<Rightarrow> Some node
              | Some c \<Rightarrow>
                  if node_f node < node_f c \<or> (node_f node = node_f c \<and> node_h node < node_h c)
                  then Some node else current) (Some c0) vs = Some n \<and>
       n \<in> insert c0 (set vs) \<and> node_le n c0 \<and> (\<forall>m \<in> set vs. node_le n m)"
proof (induction vs arbitrary: c0)
  case Nil
  then show ?case by (simp add: node_le_def)
next
  case (Cons v vs)
  let ?c1 = "if node_f v < node_f c0 \<or> (node_f v = node_f c0 \<and> node_h v < node_h c0)
             then v else c0"
  from Cons [of ?c1] obtain n where
    n: "foldl (\<lambda>current node.
              case current of
                None \<Rightarrow> Some node
              | Some c \<Rightarrow>
                  if node_f node < node_f c \<or> (node_f node = node_f c \<and> node_h node < node_h c)
                  then Some node else current) (Some ?c1) vs = Some n"
    "n \<in> insert ?c1 (set vs)" "node_le n ?c1" "\<forall>m \<in> set vs. node_le n m"
    by blast
  have "node_le ?c1 c0" "node_le ?c1 v"
    by (auto simp: node_le_def)
  with n(3) have "node_le n c0" "node_le n v"
    by (auto simp: node_le_def split: if_splits)
  with n show ?case
    by (auto split: if_splits)
qed

lemma lowest_Nil: "lowest [] = None"
  by (simp add: lowest_def js_map_values_def)

lemma lowest_Some:
  assumes "om \<noteq> []"
  shows "\<exists>n. lowest om = Some n \<and> n \<in> snd ` set om \<and> (\<forall>m \<in> snd ` set om. node_le n m)"
proof -
  from assms obtain kv rest where om: "om = kv # rest" by (cases om) auto
  from lowest_scan [of "snd kv" "map snd rest"] obtain n where
    "lowest om = Some n" "n \<in> insert (snd kv) (set (map snd rest))"
    "node_le n (snd kv)" "\<forall>m \<in> set (map snd rest). node_le n m"
    by (auto simp: lowest_def js_map_values_def om)
  then show ?thesis by (auto simp: om)
qed

subsection \<open>One relaxation\<close>

lemma relax_entry:
  assumes "kn \<in> set (relax current cl ex ey om n)"
  shows "kn \<in> set om \<or>
         (n \<notin> cl \<and> n \<notin> fst ` set om \<and> kn = (n, fresh_node current ex ey n)) \<or>
         (n \<notin> cl \<and> (\<exists>existing. (n, existing) \<in> set om \<and>
              kn = (n, improved_node current existing)))"
proof (cases "n \<in> cl")
  case True
  with assms show ?thesis by (simp add: relax_def)
next
  case False
  show ?thesis
  proof (cases "js_map_get om n")
    case None
    with False assms have "kn \<in> set (js_map_set om n (fresh_node current ex ey n))"
      by (simp add: relax_def Let_def fresh_node_def)
    with set_js_map_set [of om n] None False show ?thesis
      by (auto simp: js_map_get_None)
  next
    case (Some existing)
    with False assms have "kn \<in> set om \<or>
        kn \<in> set (js_map_set om n (improved_node current existing))"
      by (auto simp: relax_def Let_def improved_node_def split: if_splits)
    with set_js_map_set [of om n] js_map_get_SomeD [OF Some] False show ?thesis
      by auto
  qed
qed


lemma relax_keys_mono: "fst ` set om \<subseteq> fst ` set (relax current cl ex ey om n)"
  by (auto simp: relax_def Let_def keys_js_map_set split: option.splits)

lemma relax_covers: "n \<in> cl \<or> n \<in> fst ` set (relax current cl ex ey om n)"
  by (auto simp: relax_def Let_def keys_js_map_set js_map_get_None split: option.splits
      dest: js_map_get_SomeD intro: rev_image_eqI)



text \<open>A property of the entries of the open map that each relaxation keeps holds after
  the whole loop over the neighbours.\<close>

lemma foldl_relax_entries:
  assumes "\<forall>kn \<in> set om. P kn"
    and "\<And>n. n \<in> set ns \<Longrightarrow> n \<notin> cl \<Longrightarrow> P (n, fresh_node current ex ey n)"
    and "\<And>n existing. n \<in> set ns \<Longrightarrow> n \<notin> cl \<Longrightarrow> P (n, existing) \<Longrightarrow>
           P (n, improved_node current existing)"
  shows "\<forall>kn \<in> set (foldl (relax current cl ex ey) om ns). P kn"
  using assms
proof (induction ns arbitrary: om)
  case Nil
  then show ?case by simp
next
  case (Cons n ns)
  have "\<forall>kn \<in> set (relax current cl ex ey om n). P kn"
  proof
    fix kn assume "kn \<in> set (relax current cl ex ey om n)"
    from relax_entry [OF this] consider
        "kn \<in> set om"
      | "n \<notin> cl" "kn = (n, fresh_node current ex ey n)"
      | existing where "n \<notin> cl" "(n, existing) \<in> set om"
          "kn = (n, improved_node current existing)"
      by blast
    then show "P kn"
    proof cases
      case 1
      with Cons.prems(1) show ?thesis by blast
    next
      case 2
      with Cons.prems(2) [of n] show ?thesis by simp
    next
      case 3
      from Cons.prems(1) 3(2) have "P (n, existing)" by blast
      with Cons.prems(3) [of n existing] 3 show ?thesis by simp
    qed
  qed
  from Cons.IH [OF this] Cons.prems(2,3) show ?case by simp
qed

lemma foldl_relax_keys_mono:
  "fst ` set om \<subseteq> fst ` set (foldl (relax current cl ex ey) om ns)"
proof (induction ns arbitrary: om)
  case Nil
  then show ?case by simp
next
  case (Cons n ns)
  from relax_keys_mono [of om current cl ex ey n] Cons [of "relax current cl ex ey om n"]
  show ?case by auto
qed

lemma foldl_relax_covers:
  "n \<in> set ns \<Longrightarrow> n \<in> cl \<or> n \<in> fst ` set (foldl (relax current cl ex ey) om ns)"
proof (induction ns arbitrary: om)
  case Nil
  then show ?case by simp
next
  case (Cons a ns)
  show ?case
  proof (cases "n = a")
    case True
    from relax_covers [of a cl current ex ey om]
      foldl_relax_keys_mono [of "relax current cl ex ey om a" current cl ex ey ns]
    show ?thesis by (auto simp: True)
  next
    case False
    with Cons.prems have "n \<in> set ns" by simp
    from Cons.IH [OF this] show ?thesis by simp
  qed
qed




lemma getNeighbors_mem:
  "(n \<in> set (getNeighbors g px py)) =
   (isWalkable g (fst n) (snd n) \<and>
    (n = (px + 1, py) \<or> n = (px - 1, py) \<or> n = (px, py + 1) \<or> n = (px, py - 1)))"
  by (auto simp: getNeighbors_def)

subsection \<open>A* on a grid without obstacles\<close>

lemma parents_length_Some:
  "length (parents (AStarNode px py g h f (Some p))) = Suc (length (parents p))"
  by simp










subsection \<open>A* in general: termination and connectivity\<close>

lemma finite_bounds: "finite {c. isInBounds grid (fst c) (snd c)}"
proof -
  have "{c. isInBounds grid (fst c) (snd c)} \<subseteq> {0..grid_width grid} \<times> {0..grid_height grid}"
    by (auto simp: isInBounds_def)
  then show ?thesis by (rule finite_subset) simp
qed

lemma parents_nonempty: "parents n \<noteq> []"
  by (cases n rule: parents.cases) auto

lemma closed_contains_reach:
  assumes "s \<in> cl"
    and "\<forall>c \<in> cl. \<forall>n \<in> set (getNeighbors grid (fst c) (snd c)). n \<in> cl"
    and "c \<in> reach grid s"
  shows "c \<in> cl"
  using assms(3,1,2) by (induction rule: reach.induct) auto

lemma search_inv_step:
  assumes inv: "search_inv grid s e om cl"
    and k: "(k, cur) \<in> set om"
    and notgoal: "k \<noteq> e"
  shows "search_inv grid s e
           (foldl (relax cur (insert k cl) (fst e) (snd e)) (js_map_delete om k)
              (getNeighbors grid (fst k) (snd k)))
           (insert k cl)"
proof -
  let ?cl1 = "insert k cl"
  let ?om1 = "js_map_delete om k"
  let ?ns = "getNeighbors grid (fst k) (snd k)"
  let ?om2 = "foldl (relax cur ?cl1 (fst e) (snd e)) ?om1 ?ns"
  let ?P = "\<lambda>kn. fst kn \<notin> ?cl1 \<and> isInBounds grid (fst (fst kn)) (snd (fst kn)) \<and>
           node_x (snd kn) = fst (fst kn) \<and> node_y (snd kn) = snd (fst kn) \<and>
           fst kn \<in> reach grid s"
  from inv k have kr: "k \<in> reach grid s" by (auto simp: search_inv_def)
  have base: "\<forall>kn \<in> set ?om1. ?P kn"
    using inv by (auto simp: search_inv_def set_js_map_delete)
  have entries: "\<forall>kn \<in> set ?om2. ?P kn"
  proof (rule foldl_relax_entries [OF base])
    fix n assume n: "n \<in> set ?ns" and ncl: "n \<notin> ?cl1"
    from n have "isWalkable grid (fst n) (snd n)" by (simp add: getNeighbors_mem)
    then have "isInBounds grid (fst n) (snd n)" by (auto simp: isWalkable_def split: if_splits)
    moreover from reach.step [OF kr n] have "n \<in> reach grid s" .
    ultimately show "?P (n, fresh_node cur (fst e) (snd e) n)"
      using ncl by (simp add: fresh_node_def)
  next
    fix n existing assume "?P (n, existing)"
    then show "?P (n, improved_node cur existing)" by (simp add: improved_node_def)
  qed
  have keys: "fst ` set ?om1 \<subseteq> fst ` set ?om2" by (rule foldl_relax_keys_mono)
  have old_keys: "fst ` set om \<subseteq> insert k (fst ` set ?om1)"
    by (auto simp: set_js_map_delete intro: rev_image_eqI)
  from inv have "s \<in> cl \<union> fst ` set om" by (simp add: search_inv_def)
  with keys old_keys have start: "s \<in> ?cl1 \<union> fst ` set ?om2" by blast
  have nbrs: "\<forall>c \<in> ?cl1. \<forall>n \<in> set (getNeighbors grid (fst c) (snd c)). n \<in> ?cl1 \<union> fst ` set ?om2"
  proof (intro ballI)
    fix c n assume c: "c \<in> ?cl1" and n: "n \<in> set (getNeighbors grid (fst c) (snd c))"
    show "n \<in> ?cl1 \<union> fst ` set ?om2"
    proof (cases "c = k")
      case True
      with n have "n \<in> set ?ns" by simp
      from foldl_relax_covers [OF this, of ?cl1 cur "fst e" "snd e" ?om1] show ?thesis by auto
    next
      case False
      with c have "c \<in> cl" by simp
      with inv n have "n \<in> cl \<union> fst ` set om" by (simp add: search_inv_def)
      with keys old_keys show ?thesis by blast
    qed
  qed
  from inv notgoal have "e \<notin> ?cl1" by (auto simp: search_inv_def)
  with entries start nbrs show ?thesis by (simp add: search_inv_def)
qed

lemma astar_loop_connects:
  "search_inv grid s e om cl \<Longrightarrow>
   \<exists>p. astar_loop grid (fst e) (snd e) om cl = Some p \<and> (p \<noteq> [] \<longleftrightarrow> e \<in> reach grid s)"
proof (induction "card ({c. isInBounds grid (fst c) (snd c)} - cl)" arbitrary: om cl
    rule: less_induct)
  case less
  note inv = less.prems
  show ?case
  proof (cases "om = []")
    case True
    with inv have "s \<in> cl"
      "\<forall>c \<in> cl. \<forall>n \<in> set (getNeighbors grid (fst c) (snd c)). n \<in> cl" "e \<notin> cl"
      by (auto simp: search_inv_def)
    with closed_contains_reach [of s cl grid e] have "e \<notin> reach grid s" by blast
    with True show ?thesis by (subst astar_loop.simps) simp
  next
    case False
    from lowest_Some [OF False] obtain cur where
      low: "lowest om = Some cur" and mem: "cur \<in> snd ` set om"
      by blast
    from mem obtain k where k: "(k, cur) \<in> set om" by auto
    with inv have xy: "node_x cur = fst k" "node_y cur = snd k"
      and kb: "isInBounds grid (fst k) (snd k)" and kcl: "k \<notin> cl"
      and kr: "k \<in> reach grid s"
      by (auto simp: search_inv_def)
    show ?thesis
    proof (cases "k = e")
      case True
      with False low xy kr parents_nonempty [of cur] show ?thesis
        by (subst astar_loop.simps) (simp add: reconstruct_def)
    next
      case notgoal: False
      let ?cl1 = "insert k cl"
      let ?om2 = "foldl (relax cur ?cl1 (fst e) (snd e)) (js_map_delete om k)
                    (getNeighbors grid (fst k) (snd k))"
      have unfold: "astar_loop grid (fst e) (snd e) om cl =
                    astar_loop grid (fst e) (snd e) ?om2 ?cl1"
        using False low notgoal xy
        by (subst astar_loop.simps) (auto simp: Let_def prod_eq_iff)
      have split: "{c. isInBounds grid (fst c) (snd c)} - ?cl1 =
            ({c. isInBounds grid (fst c) (snd c)} - cl) - {k}"
        by auto
      have "k \<in> {c. isInBounds grid (fst c) (snd c)} - cl"
        using kb kcl by simp
      moreover have "finite ({c. isInBounds grid (fst c) (snd c)} - cl)"
        using finite_bounds [of grid] by simp
      ultimately have "card (({c. isInBounds grid (fst c) (snd c)} - cl) - {k}) <
                     card ({c. isInBounds grid (fst c) (snd c)} - cl)"
        by (intro card_Diff1_less)
      with split have smaller: "card ({c. isInBounds grid (fst c) (snd c)} - ?cl1) <
                     card ({c. isInBounds grid (fst c) (snd c)} - cl)"
        by simp
      from less.hyps [OF smaller search_inv_step [OF inv k notgoal]] unfold
      show ?thesis by simp
    qed
  qed
qed

text \<open>
  \<open>findPath\<close> always returns. Between cells in bounds, its path is non-empty exactly
  when the start is walkable, an end cell could be resolved, and that cell is connected
  to the start.
\<close>

lemma findPath_connects:
  assumes "isInBounds grid sx sy" "isInBounds grid ex ey"
  shows "\<exists>p. findPath grid sx sy ex ey = Some p \<and>
             (p \<noteq> [] \<longleftrightarrow>
                isWalkable grid sx sy \<and>
                (\<exists>t. actualEnd grid sx sy ex ey = Some t \<and> t \<in> reach grid (sx, sy)))"
proof (cases "actualEnd grid sx sy ex ey")
  case None
  with assms show ?thesis by (simp add: findPath_def)
next
  case (Some t)
  show ?thesis
  proof (cases "isWalkable grid sx sy")
    case False
    with assms Some show ?thesis by (simp add: findPath_def)
  next
    case True
    show ?thesis
    proof (cases "(sx, sy) = t")
      case True
      with assms Some \<open>isWalkable grid sx sy\<close> reach.start [of "(sx, sy)" grid] show ?thesis
        by (auto simp: findPath_def)
    next
      case False
      let ?h = "manhattan sx sy (fst t) (snd t)"
      have "search_inv grid (sx, sy) t [((sx, sy), AStarNode sx sy 0 ?h ?h None)] {}"
        using assms reach.start [of "(sx, sy)" grid] by (simp add: search_inv_def)
      from astar_loop_connects [OF this] obtain p where
        "astar_loop grid (fst t) (snd t) [((sx, sy), AStarNode sx sy 0 ?h ?h None)] {} = Some p"
        "p \<noteq> [] \<longleftrightarrow> t \<in> reach grid (sx, sy)"
        by blast
      moreover from assms Some True False have "findPath grid sx sy ex ey =
          astar_loop grid (fst t) (snd t) [((sx, sy), AStarNode sx sy 0 ?h ?h None)] {}"
        by (auto simp: findPath_def Let_def prod_eq_iff)
      ultimately show ?thesis using True Some by simp
    qed
  qed
qed


subsection \<open>Connected cells\<close>

lemma reach_trans: "d \<in> reach g c \<Longrightarrow> c \<in> reach g s \<Longrightarrow> d \<in> reach g s"
  by (induction rule: reach.induct) (auto intro: reach.step)

text \<open>A straight run of walkable cells in one of the four directions is connected.\<close>

lemma reach_run:
  assumes dir: "(dx, dy) \<in> {(1, 0), (- 1, 0), (0, 1), (0, - 1)}"
    and free: "\<forall>i. 1 \<le> i \<and> i \<le> int n \<longrightarrow> isWalkable g (px + i * dx) (py + i * dy)"
  shows "(px + int n * dx, py + int n * dy) \<in> reach g (px, py)"
  using free
proof (induction n)
  case 0
  then show ?case by (simp add: reach.start)
next
  case (Suc n)
  then have prev: "(px + int n * dx, py + int n * dy) \<in> reach g (px, py)" by simp
  from Suc.prems have w: "isWalkable g (px + (int n + 1) * dx) (py + (int n + 1) * dy)"
    by simp
  have "(px + (int n + 1) * dx, py + (int n + 1) * dy) \<in>
        set (getNeighbors g (px + int n * dx) (py + int n * dy))"
    using dir w by (auto simp: getNeighbors_mem algebra_simps)
  from reach.step [OF prev] this show ?case
    by (simp add: algebra_simps)
qed

lemma reach_east:
  "\<forall>i. px < i \<and> i \<le> qx \<longrightarrow> isWalkable g i py \<Longrightarrow> px \<le> qx \<Longrightarrow> (qx, py) \<in> reach g (px, py)"
  using reach_run [of 1 0 "nat (qx - px)" g px py] by (simp add: algebra_simps)

lemma reach_west:
  "\<forall>i. qx \<le> i \<and> i < px \<longrightarrow> isWalkable g i py \<Longrightarrow> qx \<le> px \<Longrightarrow> (qx, py) \<in> reach g (px, py)"
  using reach_run [of "- 1" 0 "nat (px - qx)" g px py] by (simp add: algebra_simps)

lemma reach_south:
  "\<forall>i. py < i \<and> i \<le> qy \<longrightarrow> isWalkable g px i \<Longrightarrow> py \<le> qy \<Longrightarrow> (px, qy) \<in> reach g (px, py)"
  using reach_run [of 0 1 "nat (qy - py)" g px py] by (simp add: algebra_simps)

lemma reach_north:
  "\<forall>i. qy \<le> i \<and> i < py \<longrightarrow> isWalkable g px i \<Longrightarrow> qy \<le> py \<Longrightarrow> (px, qy) \<in> reach g (px, py)"
  using reach_run [of 0 "- 1" "nat (py - qy)" g px py] by (simp add: algebra_simps)

lemma same_cells_setWallHeight: "same_cells (setWallHeight g px py w h v) g"
  by (simp add: same_cells_def)

lemma same_cells_refl: "same_cells g g"
  by (simp add: same_cells_def)

lemma same_cells_neighbors: "same_cells g1 g2 \<Longrightarrow> getNeighbors g1 px py = getNeighbors g2 px py"
  by (simp add: same_cells_def getNeighbors_def)

lemma same_cells_sym: "same_cells g1 g2 \<Longrightarrow> same_cells g2 g1"
  by (simp add: same_cells_def)

lemma same_cells_reach_sub:
  "c \<in> reach g1 s \<Longrightarrow> same_cells g1 g2 \<Longrightarrow> c \<in> reach g2 s"
proof (induction rule: reach.induct)
  case start
  show ?case by (rule reach.start)
next
  case (step c n)
  from step.hyps(2) same_cells_neighbors [OF step.prems, of "fst c" "snd c"]
  have "n \<in> set (getNeighbors g2 (fst c) (snd c))" by simp
  from reach.step [OF step.IH [OF step.prems] this] show ?case .
qed

lemma same_cells_reach:
  assumes "same_cells g1 g2"
  shows "reach g1 s = reach g2 s"
proof (intro set_eqI iffI)
  fix c assume "c \<in> reach g1 s"
  from same_cells_reach_sub [OF this assms] show "c \<in> reach g2 s" .
next
  fix c assume "c \<in> reach g2 s"
  from same_cells_reach_sub [OF this same_cells_sym [OF assms]] show "c \<in> reach g1 s" .
qed

lemma same_cells_actualEnd:
  assumes "same_cells g1 g2"
  shows "actualEnd g1 sx sy ex ey = actualEnd g2 sx sy ex ey"
proof -
  have w: "isWalkable g1 = isWalkable g2"
    using assms by (intro ext) (simp add: same_cells_def)
  show ?thesis
    unfolding actualEnd_def blocked_target_def nearest_walkable_def w ..
qed

subsection \<open>The reachability check of a placement\<close>

lemma findPath_edge:
  assumes "isWalkable g (fst m) (snd m)"
  shows "\<exists>p. findPath g (fst m) (snd m) MAP_castleCenterX MAP_castleCenterY = Some p \<and>
             (p \<noteq> [] \<longleftrightarrow> edge_connected g m)"
proof (cases "isInBounds g MAP_castleCenterX MAP_castleCenterY")
  case True
  from assms have "isInBounds g (fst m) (snd m)"
    by (auto simp: isWalkable_def split: if_splits)
  from findPath_connects [OF this True] assms True show ?thesis
    by (simp add: edge_connected_def)
next
  case False
  then show ?thesis by (simp add: findPath_def edge_connected_def)
qed

lemma edge_paths_ok_iff:
  "edge_paths_ok g es =
   Some (\<forall>m \<in> set es. isWalkable g (fst m) (snd m) \<longrightarrow> edge_connected g m)"
proof (induction es)
  case Nil
  then show ?case by simp
next
  case (Cons m es)
  show ?case
  proof (cases "isWalkable g (fst m) (snd m)")
    case False
    with Cons show ?thesis by simp
  next
    case True
    from findPath_edge [OF True] obtain p where
      "findPath g (fst m) (snd m) MAP_castleCenterX MAP_castleCenterY = Some p"
      "p \<noteq> [] \<longleftrightarrow> edge_connected g m"
      by blast
    with True Cons show ?thesis by auto
  qed
qed

lemma same_cells_edge_connected:
  assumes "same_cells g1 g2"
  shows "edge_connected g1 m = edge_connected g2 m"
proof -
  from assms have "isInBounds g1 MAP_castleCenterX MAP_castleCenterY =
      isInBounds g2 MAP_castleCenterX MAP_castleCenterY"
    by (simp add: same_cells_def)
  with same_cells_actualEnd [OF assms] same_cells_reach [OF assms] show ?thesis
    by (simp add: edge_connected_def)
qed

subsection \<open>Placing a building\<close>

lemma footprint_origin:
  "(gx, gy) \<in> set (rect_cells gx gy (bs_gridWidth (BUILDING_STATS ty))
                     (bs_gridHeight (BUILDING_STATS ty)))"
  by (cases ty) (simp_all add: in_rect_cells)

text \<open>An accepted placement on a free origin tile is a fresh one: the building is created
  after the edge check has passed on the test grid, and the grid differs from the test
  grid at most in the wall heights.\<close>

lemma placeBuilding_fresh:
  assumes run: "placeBuilding bm ty gx gy owner grid gold newId = Some (res, bm', grid')"
    and acc: "pr_building res \<noteq> None"
    and free: "isWalkable grid gx gy"
  shows "edge_paths_ok (setBlocked grid gx gy (bs_gridWidth (BUILDING_STATS ty))
           (bs_gridHeight (BUILDING_STATS ty))) edgeTests = Some True \<and>
         same_cells grid' (setBlocked grid gx gy (bs_gridWidth (BUILDING_STATS ty))
           (bs_gridHeight (BUILDING_STATS ty))) \<and>
         (\<exists>b. pr_building res = Some b \<and> building_stackCount b = 1 \<and> building_id b = newId)"
proof -
  let ?w = "bs_gridWidth (BUILDING_STATS ty)"
  let ?h = "bs_gridHeight (BUILDING_STATS ty)"
  from free footprint_origin [of gx gy ty]
  have ex: "list_ex (\<lambda>c. isWalkable grid (fst c) (snd c)) (rect_cells gx gy ?w ?h)"
    unfolding list_ex_iff by (intro bexI [of _ "(gx, gy)"]) simp_all
  show ?thesis
  proof (cases "edge_paths_ok (setBlocked grid gx gy ?w ?h) edgeTests")
    case None
    with run acc ex show ?thesis
      by (auto simp: placeBuilding_def Let_def rejected_def clone_def split: if_splits)
  next
    case (Some ok)
    with run acc ex show ?thesis
      by (cases ok)
        (auto simp: placeBuilding_def Let_def rejected_def clone_def same_cells_setWallHeight
          same_cells_refl split: if_splits)
  qed
qed

text \<open>
  Claim C1, as amended. After an accepted placement on a free tile (not a stacking), for
  each of the four map-edge midpoints that is still walkable, \<open>findPath\<close> from it to the
  castle centre of the map configuration, (20, 20), returns a non-empty path: the cell
  the search resolves for that centre is connected to the midpoint by walkable cells. A
  midpoint that the placement itself has blocked is not checked, and the centres of the
  other players' castles are not checked.
\<close>

theorem placement_keeps_edges_connected:
  assumes run: "placeBuilding bm ty gx gy owner grid gold newId = Some (res, bm', grid')"
    and acc: "pr_building res \<noteq> None"
    and free: "isWalkable grid gx gy"
  shows "\<forall>m \<in> set edgeTests. isWalkable grid' (fst m) (snd m) \<longrightarrow>
           edge_connected grid' m \<and>
           (\<exists>p. findPath grid' (fst m) (snd m) MAP_castleCenterX MAP_castleCenterY = Some p \<and>
                p \<noteq> [])"
proof (intro ballI impI)
  fix m assume m: "m \<in> set edgeTests" and w: "isWalkable grid' (fst m) (snd m)"
  let ?tg = "setBlocked grid gx gy (bs_gridWidth (BUILDING_STATS ty))
               (bs_gridHeight (BUILDING_STATS ty))"
  from placeBuilding_fresh [OF run acc free]
  have ok: "edge_paths_ok ?tg edgeTests = Some True" and same: "same_cells grid' ?tg"
    by auto
  from same w have "isWalkable ?tg (fst m) (snd m)" by (simp add: same_cells_def)
  with ok m have "edge_connected ?tg m" by (auto simp: edge_paths_ok_iff)
  with same_cells_edge_connected [OF same] have c: "edge_connected grid' m" by simp
  with findPath_edge [OF w] show "edge_connected grid' m \<and>
           (\<exists>p. findPath grid' (fst m) (snd m) MAP_castleCenterX MAP_castleCenterY = Some p \<and>
                p \<noteq> [])"
    by auto
qed

subsection \<open>The one-player map\<close>

lemma fx_grid1_bounds [simp]:
  "isInBounds fx_grid1 qx qy = (0 \<le> qx \<and> qx < 40 \<and> 0 \<le> qy \<and> qy < 40)"
proof -
  have "isInBounds fx_grid1 qx qy = isInBounds (Grid_new\<lparr>grid_castlePositions := [(20, 20)]\<rparr>) qx qy"
    by (simp add: fx_grid1_def initCastles_def)
  then show ?thesis
    by (simp add: isInBounds_def Grid_new_def MAP_gridWidth_def MAP_gridHeight_def)
qed

lemma fx_grid1_walkable:
  "isWalkable fx_grid1 qx qy =
   (0 \<le> qx \<and> qx < 40 \<and> 0 \<le> qy \<and> qy < 40 \<and> \<not> (18 \<le> qx \<and> qx < 22 \<and> 18 \<le> qy \<and> qy < 22))"
proof -
  have a: "isWalkable fx_grid1 qx qy =
      (isWalkable (Grid_new\<lparr>grid_castlePositions := [(20, 20)]\<rparr>) qx qy \<and>
       \<not> (18 \<le> qx \<and> qx < 18 + 4 \<and> 18 \<le> qy \<and> qy < 18 + 4))"
    by (simp add: fx_grid1_def initCastles_def isWalkable_setBlocked)
  have b: "isWalkable (Grid_new\<lparr>grid_castlePositions := [(20, 20)]\<rparr>) qx qy =
      (0 \<le> qx \<and> qx < 40 \<and> 0 \<le> qy \<and> qy < 40)"
    by (simp add: isWalkable_def isInBounds_def Grid_new_def MAP_gridWidth_def MAP_gridHeight_def)
  show ?thesis unfolding a b by auto
qed

lemmas map_consts =
  MAP_gridWidth_def MAP_gridHeight_def MAP_castleCenterX_def MAP_castleCenterY_def

text \<open>
  On a grid that keeps the one-player map's bounds, the resolved end for the centre is
  (20, 22) as soon as that cell is walkable and the castle footprint is not.
\<close>

lemma south_edge_connected:
  assumes b: "isInBounds g 20 20"
    and t: "actualEnd g 20 39 20 20 = Some (20, 22)"
    and col: "\<forall>i. 22 \<le> i \<and> i < 39 \<longrightarrow> isWalkable g 20 i"
  shows "edge_connected g (20, 39)"
  using b t reach_north [of 22 39 g 20] col
  by (simp add: edge_connected_def map_consts)

lemma west_edge_connected:
  assumes b: "isInBounds g 20 20"
    and t: "actualEnd g 0 20 20 20 = Some (20, 22)"
    and col: "\<forall>i. 20 < i \<and> i \<le> 22 \<longrightarrow> isWalkable g 0 i"
    and row: "\<forall>i. 0 < i \<and> i \<le> 20 \<longrightarrow> isWalkable g i 22"
  shows "edge_connected g (0, 20)"
proof -
  from reach_south [of 20 22 g 0] col have "(0, 22) \<in> reach g (0, 20)" by simp
  moreover from reach_east [of 0 20 g 22] row have "(20, 22) \<in> reach g (0, 22)" by simp
  ultimately have "(20, 22) \<in> reach g (0, 20)" by (rule reach_trans [rotated])
  with b t show ?thesis by (simp add: edge_connected_def map_consts)
qed

lemma east_edge_connected:
  assumes b: "isInBounds g 20 20"
    and t: "actualEnd g 39 20 20 20 = Some (20, 22)"
    and col: "\<forall>i. 20 < i \<and> i \<le> 22 \<longrightarrow> isWalkable g 39 i"
    and row: "\<forall>i. 20 \<le> i \<and> i < 39 \<longrightarrow> isWalkable g i 22"
  shows "edge_connected g (39, 20)"
proof -
  from reach_south [of 20 22 g 39] col have "(39, 22) \<in> reach g (39, 20)" by simp
  moreover from reach_west [of 20 39 g 22] row have "(20, 22) \<in> reach g (39, 22)" by simp
  ultimately have "(20, 22) \<in> reach g (39, 20)" by (rule reach_trans [rotated])
  with b t show ?thesis by (simp add: edge_connected_def map_consts)
qed


lemmas actualEnd_eval =
  actualEnd_def blocked_target_def nearest_walkable_def manhattan_def Let_def upto.simps

lemma north_wall_test_grid:
  "edge_paths_ok (setBlocked fx_grid1 20 0 1 1) edgeTests = Some True"
proof -
  let ?tg = "setBlocked fx_grid1 20 0 1 1"
  have w: "\<And>qx qy. isWalkable ?tg qx qy =
      (0 \<le> qx \<and> qx < 40 \<and> 0 \<le> qy \<and> qy < 40 \<and>
       \<not> (18 \<le> qx \<and> qx < 22 \<and> 18 \<le> qy \<and> qy < 22) \<and> \<not> (qx = 20 \<and> qy = 0))"
    by (auto simp: isWalkable_setBlocked fx_grid1_walkable)
  have b: "isInBounds ?tg 20 20" by simp
  have s: "edge_connected ?tg (20, 39)"
    by (rule south_edge_connected [OF b]) (simp_all add: actualEnd_eval w)
  have ws: "edge_connected ?tg (0, 20)"
    by (rule west_edge_connected [OF b]) (simp_all add: actualEnd_eval w)
  have e: "edge_connected ?tg (39, 20)"
    by (rule east_edge_connected [OF b]) (simp_all add: actualEnd_eval w)
  have n: "\<not> isWalkable ?tg 20 0" by (simp add: w)
  from s ws e n show ?thesis
    by (simp add: edge_paths_ok_iff edgeTests_def map_consts)
qed

lemma north_wall_placed:
  "placeBuilding Building_init WoodenWall 20 0 ''p1'' fx_grid1 (Num 500) ''w1'' =
     Some (\<lparr>pr_building = Some fx_north_wall, pr_reason = None\<rparr>,
           \<lparr>buildings = [(''w1'', fx_north_wall)], totalBuildingsPlaced = 1\<rparr>,
           fx_north_grid)"
  by (simp add: placeBuilding_def Let_def map_consts rect_cells_def fx_grid1_walkable
      clone_def north_wall_test_grid fx_north_wall_def fx_north_grid_def Building_init_def)

theorem north_midpoint_blocked_counterexample:
  "placeBuilding Building_init WoodenWall 20 0 ''p1'' fx_grid1 (Num 500) ''w1'' =
     Some (\<lparr>pr_building = Some fx_north_wall, pr_reason = None\<rparr>,
           \<lparr>buildings = [(''w1'', fx_north_wall)], totalBuildingsPlaced = 1\<rparr>,
           fx_north_grid) \<and>
   (20, 0) \<in> set edgeTests \<and>
   findPath fx_north_grid 20 0 MAP_castleCenterX MAP_castleCenterY = Some []"
proof -
  have w: "\<And>qx qy. isWalkable fx_north_grid qx qy =
      (0 \<le> qx \<and> qx < 40 \<and> 0 \<le> qy \<and> qy < 40 \<and>
       \<not> (18 \<le> qx \<and> qx < 22 \<and> 18 \<le> qy \<and> qy < 22) \<and> \<not> (qx = 20 \<and> qy = 0))"
    by (auto simp: fx_north_grid_def isWalkable_setBlocked fx_grid1_walkable)
  have "findPath fx_north_grid 20 0 MAP_castleCenterX MAP_castleCenterY = Some []"
    by (simp add: findPath_def map_consts actualEnd_eval w)
  with north_wall_placed show ?thesis
    by (simp add: edgeTests_def map_consts)
qed

theorem placement_keeps_edges_connected_witness:
  "isWalkable fx_grid1 20 0 \<and> isWalkable fx_north_grid 20 39 \<and> (20, 39) \<in> set edgeTests \<and>
   edge_connected fx_north_grid (20, 39) \<and>
   (\<exists>p. findPath fx_north_grid 20 39 MAP_castleCenterX MAP_castleCenterY = Some p \<and> p \<noteq> [])"
proof -
  have free: "isWalkable fx_grid1 20 0" by (simp add: fx_grid1_walkable)
  have acc: "pr_building \<lparr>pr_building = Some fx_north_wall, pr_reason = None\<rparr> \<noteq> None"
    by simp
  have m: "(20, 39) \<in> set edgeTests" by (simp add: edgeTests_def map_consts)
  have w: "isWalkable fx_north_grid 20 39"
    by (simp add: fx_north_grid_def isWalkable_setBlocked fx_grid1_walkable)
  from placement_keeps_edges_connected [OF north_wall_placed acc free] m w free
  show ?thesis by fastforce
qed

subsection \<open>Stacking walls\<close>


lemma js_map_set_values: "v' \<in> snd ` set (js_map_set m k v) \<Longrightarrow> v' = v \<or> v' \<in> snd ` set m"
  using set_js_map_set [of m k v] by auto

lemma findWallAt_Some:
  "findWallAt bm gx gy ty = Some wall \<Longrightarrow>
   wall \<in> set (getAllBuildings bm) \<and> is_wall_at gx gy ty wall"
  by (auto simp: findWallAt_def getAllBuildings_def find_Some_iff)









section \<open>Wave sizes and enemy scaling\<close>
















section \<open>Units and enemies on the move\<close>

lemma unit_move_path [simp]: "unit_path (unit_move u r) = unit_path u"
proof (induction u r rule: unit_move.induct)
  case (1 unit remaining)
  show ?case
    by (subst unit_move.simps) (use 1 in \<open>auto simp: Let_def\<close>)
qed

lemma enemy_move_path [simp]: "enemy_path (enemy_move e r) = enemy_path e"
proof (induction e r rule: enemy_move.induct)
  case (1 enemy remaining)
  show ?case
    by (subst enemy_move.simps) (use 1 in \<open>auto simp: Let_def\<close>)
qed

lemma move_simulation:
  assumes "unit_x u = enemy_x e" and "unit_y u = enemy_y e"
    and "unit_path u = enemy_path e" and "unit_pathIndex u = enemy_pathIndex e"
  shows "unit_x (unit_move u r) = enemy_x (enemy_move e r) \<and>
         unit_y (unit_move u r) = enemy_y (enemy_move e r) \<and>
         unit_pathIndex (unit_move u r) = enemy_pathIndex (enemy_move e r)"
  using assms
proof (induction e r arbitrary: u rule: enemy_move.induct)
  case (1 enemy remaining)
  note same = "1.prems"
  show ?case
  proof (cases "remaining > 0 \<and> enemy_pathIndex enemy < length (enemy_path enemy)")
    case False
    then have "enemy_move enemy remaining = enemy" by (subst enemy_move.simps) auto
    moreover from False same have "unit_move u remaining = u"
      by (subst unit_move.simps) auto
    ultimately show ?thesis using same by simp
  next
    case True
    define target where "target = enemy_path enemy ! enemy_pathIndex enemy"
    define dx where "dx = vx target - enemy_x enemy"
    define dy where "dy = vy target - enemy_y enemy"
    define d where "d = sqrt (dx * dx + dy * dy)"
    show ?thesis
    proof (cases "d \<le> remaining")
      case near: True
      let ?e = "enemy\<lparr>enemy_x := vx target, enemy_y := vy target,
                       enemy_pathIndex := enemy_pathIndex enemy + 1\<rparr>"
      let ?u = "u\<lparr>unit_x := vx target, unit_y := vy target,
                   unit_pathIndex := unit_pathIndex u + 1\<rparr>"
      have e: "enemy_move enemy remaining = enemy_move ?e (remaining - d)"
        using True near
        by (subst enemy_move.simps) (simp add: Let_def target_def dx_def dy_def d_def)
      have u: "unit_move u remaining = unit_move ?u (remaining - d)"
        using True near same
        by (subst unit_move.simps) (simp add: Let_def target_def dx_def dy_def d_def)
      have "unit_x (unit_move ?u (remaining - d)) = enemy_x (enemy_move ?e (remaining - d)) \<and>
            unit_y (unit_move ?u (remaining - d)) = enemy_y (enemy_move ?e (remaining - d)) \<and>
            unit_pathIndex (unit_move ?u (remaining - d)) =
              enemy_pathIndex (enemy_move ?e (remaining - d))"
        using "1.IH"(1) [OF True target_def dx_def dy_def d_def near, of ?u] same
        by simp
      with e u show ?thesis by simp
    next
      case far: False
      let ?e = "enemy\<lparr>enemy_x := enemy_x enemy + dx * (remaining / d),
                       enemy_y := enemy_y enemy + dy * (remaining / d)\<rparr>"
      let ?u = "u\<lparr>unit_x := unit_x u + dx * (remaining / d),
                   unit_y := unit_y u + dy * (remaining / d)\<rparr>"
      have e: "enemy_move enemy remaining = enemy_move ?e 0"
        using True far
        by (subst enemy_move.simps) (simp add: Let_def target_def dx_def dy_def d_def)
      have u: "unit_move u remaining = unit_move ?u 0"
        using True far same
        by (subst unit_move.simps) (simp add: Let_def target_def dx_def dy_def d_def)
      have "enemy_move ?e 0 = ?e" by (subst enemy_move.simps) simp
      moreover have "unit_move ?u 0 = ?u" by (subst unit_move.simps) simp
      ultimately show ?thesis using e u same by simp
    qed
  qed
qed

lemma unit_move_arrives:
  assumes "unit_pathIndex u < length (unit_path u)"
    and "length (unit_path u) \<le> unit_pathIndex (unit_move u r)"
  shows "unit_x (unit_move u r) = vx (last (unit_path u)) \<and>
         unit_y (unit_move u r) = vy (last (unit_path u)) \<and>
         unit_pathIndex (unit_move u r) = length (unit_path u)"
  using assms
proof (induction u r rule: unit_move.induct)
  case (1 unit remaining)
  show ?case
  proof (cases "remaining > 0 \<and> unit_pathIndex unit < length (unit_path unit)")
    case False
    then have "unit_move unit remaining = unit" by (subst unit_move.simps) auto
    with "1.prems" show ?thesis by simp
  next
    case True
    define target where "target = unit_path unit ! unit_pathIndex unit"
    define dx where "dx = vx target - unit_x unit"
    define dy where "dy = vy target - unit_y unit"
    define d where "d = sqrt (dx * dx + dy * dy)"
    show ?thesis
    proof (cases "d \<le> remaining")
      case near: True
      let ?u = "unit\<lparr>unit_x := vx target, unit_y := vy target,
                      unit_pathIndex := unit_pathIndex unit + 1\<rparr>"
      have u: "unit_move unit remaining = unit_move ?u (remaining - d)"
        using True near
        by (subst unit_move.simps) (simp add: Let_def target_def dx_def dy_def d_def)
      show ?thesis
      proof (cases "unit_pathIndex unit + 1 < length (unit_path unit)")
        case more: True
        from "1.IH"(1) [OF True target_def dx_def dy_def d_def near] more "1.prems" u
        show ?thesis by simp
      next
        case last_one: False
        from last_one True have l: "unit_pathIndex unit = length (unit_path unit) - 1" by linarith
        have "unit_move ?u (remaining - d) = ?u"
          using last_one by (subst unit_move.simps) simp
        moreover from True have "unit_path unit \<noteq> []" by auto
        ultimately show ?thesis using u l
          by (simp add: target_def last_conv_nth)
      qed
    next
      case far: False
      let ?u = "unit\<lparr>unit_x := unit_x unit + dx * (remaining / d),
                      unit_y := unit_y unit + dy * (remaining / d)\<rparr>"
      have "unit_move unit remaining = unit_move ?u 0"
        using True far
        by (subst unit_move.simps) (simp add: Let_def target_def dx_def dy_def d_def)
      moreover have "unit_move ?u 0 = ?u" by (subst unit_move.simps) simp
      ultimately show ?thesis using "1.prems" True by simp
    qed
  qed
qed

lemma updateUnit_reported:
  "unit_path v \<noteq> [] \<Longrightarrow>
   snd (updateUnit dt grid v) \<longleftrightarrow>
     length (unit_path v) \<le> unit_pathIndex (fst (updateUnit dt grid v))"
  by (simp add: updateUnit_def Let_def)

lemma updateUnit_arrives:
  assumes "unit_pathIndex v < length (unit_path v)" and "snd (updateUnit dt grid v)"
  shows "unit_x (fst (updateUnit dt grid v)) = vx (last (unit_path v)) \<and>
         unit_y (fst (updateUnit dt grid v)) = vy (last (unit_path v))"
proof -
  from assms(1) have ne: "length (unit_path v) \<noteq> 0" by auto
  with assms(2) have "length (unit_path v) \<le> unit_pathIndex (unit_move v (unit_speed v * dt))"
    by (simp add: updateUnit_def Let_def)
  from unit_move_arrives [OF assms(1) this] ne show ?thesis
    by (simp add: updateUnit_def Let_def)
qed

text \<open>
  Claim C9, as amended. A unit and an enemy with the same position, path, path index and
  speed are moved to the same position and path index by one step of \<open>updateUnits\<close> and
  of \<open>updateEnemies\<close> with the same \<open>deltaTime\<close>, provided the enemy is not slowed by
  climbing (it cannot climb walls, or the wall height at its tile is 0); both managers
  apply that step to each of their entities. Among the units with a non-empty path,
  \<open>updateUnits\<close> reports exactly those whose path index has reached the end of the path;
  a unit that was still on its way and is reported stands on the last waypoint.
\<close>

theorem updateUnits_moves_like_updateEnemies:
  assumes same: "unit_x u = enemy_x e" "unit_y u = enemy_y e" "unit_path u = enemy_path e"
      "unit_pathIndex u = enemy_pathIndex e" "unit_speed u = enemy_speed e"
    and flat: "\<not> (enemy_canClimbWalls e \<and>
                   getWallHeight grid \<lfloor>enemy_x e\<rfloor> \<lfloor>enemy_y e\<rfloor> > 0)"
  shows "unit_x (fst (updateUnit dt grid u)) = enemy_x (fst (updateEnemy dt grid cx cy e)) \<and>
         unit_y (fst (updateUnit dt grid u)) = enemy_y (fst (updateEnemy dt grid cx cy e)) \<and>
         unit_pathIndex (fst (updateUnit dt grid u)) =
           enemy_pathIndex (fst (updateEnemy dt grid cx cy e)) \<and>
         unit_path (fst (updateUnit dt grid u)) = enemy_path (fst (updateEnemy dt grid cx cy e)) \<and>
         getAllEnemies (snd (updateEnemies em dt grid cx cy)) =
           map (\<lambda>v. fst (updateEnemy dt grid cx cy v)) (getAllEnemies em) \<and>
         getAllUnits (snd (updateUnits am dt grid)) =
           map (\<lambda>v. fst (updateUnit dt grid v)) (getAllUnits am) \<and>
         fst (updateUnits am dt grid) =
           map fst (filter snd (map (updateUnit dt grid) (getAllUnits am))) \<and>
         (\<forall>v. unit_path v \<noteq> [] \<longrightarrow>
            (snd (updateUnit dt grid v) \<longleftrightarrow>
               length (unit_path v) \<le> unit_pathIndex (fst (updateUnit dt grid v)))) \<and>
         (\<forall>v. unit_pathIndex v < length (unit_path v) \<and> snd (updateUnit dt grid v) \<longrightarrow>
            unit_x (fst (updateUnit dt grid v)) = vx (last (unit_path v)) \<and>
            unit_y (fst (updateUnit dt grid v)) = vy (last (unit_path v)))"
proof -
  let ?r = "enemy_speed e * dt"
  have speed: "fst (updateEnemy dt grid cx cy e) =
               (if length (enemy_path e) = 0 then e else enemy_move e ?r)"
    using flat by (auto simp: updateEnemy_def Let_def)
  have unit: "fst (updateUnit dt grid u) =
              (if length (enemy_path e) = 0 then u else unit_move u ?r)"
    using same by (simp add: updateUnit_def Let_def)
  have motion:
    "unit_x (fst (updateUnit dt grid u)) = enemy_x (fst (updateEnemy dt grid cx cy e)) \<and>
     unit_y (fst (updateUnit dt grid u)) = enemy_y (fst (updateEnemy dt grid cx cy e)) \<and>
     unit_pathIndex (fst (updateUnit dt grid u)) =
       enemy_pathIndex (fst (updateEnemy dt grid cx cy e)) \<and>
     unit_path (fst (updateUnit dt grid u)) = enemy_path (fst (updateEnemy dt grid cx cy e))"
    using move_simulation [OF same(1-4), of ?r] same by (simp add: speed unit)
  have es: "getAllEnemies (snd (updateEnemies em dt grid cx cy)) =
            map (\<lambda>v. fst (updateEnemy dt grid cx cy v)) (getAllEnemies em)"
    by (simp add: updateEnemies_def getAllEnemies_def js_map_values_def Let_def comp_def)
  have us: "getAllUnits (snd (updateUnits am dt grid)) =
            map (\<lambda>v. fst (updateUnit dt grid v)) (getAllUnits am)"
    by (simp add: updateUnits_def getAllUnits_def js_map_values_def Let_def comp_def)
  have rep: "fst (updateUnits am dt grid) =
             map fst (filter snd (map (updateUnit dt grid) (getAllUnits am)))"
    by (simp add: updateUnits_def getAllUnits_def js_map_values_def Let_def comp_def
          filter_map)
  from motion es us rep updateUnit_reported updateUnit_arrives show ?thesis
    by blast
qed

lemma fx_grid1_height: "getWallHeight fx_grid1 qx qy = 0"
proof -
  have "getWallHeight fx_grid1 qx qy =
        getWallHeight (Grid_new\<lparr>grid_castlePositions := [(20, 20)]\<rparr>) qx qy"
    by (simp add: fx_grid1_def initCastles_def)
  then show ?thesis by (simp add: getWallHeight_def Grid_new_def)
qed

lemma fx_wall_grid1_height:
  "getWallHeight fx_wall_grid1 qx qy = (if qx = 10 \<and> qy = 10 then 1 else 0)"
  by (auto simp: fx_wall_grid1_def getWallHeight_setWallHeight fx_grid1_height)

theorem updateUnits_moves_like_updateEnemies_witness:
  "getWallHeight fx_wall_grid1 \<lfloor>enemy_x (fx_walker 0 0)\<rfloor> \<lfloor>enemy_y (fx_walker 0 0)\<rfloor> = 0 \<and>
   enemy_x (fst (updateEnemy 1 fx_wall_grid1 20 20 (fx_walker 0 0))) = 1 \<and>
   unit_x (fst (updateUnit 1 fx_wall_grid1 (fx_swordsman 0 0))) = 1 \<and>
   unit_y (fst (updateUnit 1 fx_wall_grid1 (fx_swordsman 0 0))) = 0 \<and>
   unit_pathIndex (fst (updateUnit 1 fx_wall_grid1 (fx_swordsman 0 0))) = 0 \<and>
   \<not> snd (updateUnit 1 fx_wall_grid1 (fx_swordsman 0 0))"
proof -
  have h: "getWallHeight fx_wall_grid1 \<lfloor>enemy_x (fx_walker 0 0)\<rfloor> \<lfloor>enemy_y (fx_walker 0 0)\<rfloor> = 0"
    by (simp add: fx_wall_grid1_height fx_walker_def)
  have e: "fst (updateEnemy 1 fx_wall_grid1 20 20 (fx_walker 0 0)) = (fx_walker 0 0)\<lparr>enemy_x := 1\<rparr>"
    by (simp add: updateEnemy_def fx_wall_grid1_height fx_walker_def Let_def enemy_move.simps)
  have p: "unit_path (fx_swordsman 0 0) \<noteq> []" by (simp add: fx_swordsman_def)
  from updateUnits_moves_like_updateEnemies
         [where u = "fx_swordsman 0 0" and e = "fx_walker 0 0" and grid = fx_wall_grid1
            and dt = 1 and cx = 20 and cy = 20]
       h e p
  show ?thesis by (simp add: fx_swordsman_def fx_walker_def)
qed

text \<open>
  On the wall tile (10, 10), of height 1, the climbing enemy advances by half a tile in
  one second and the swordsman by a whole tile.
\<close>

theorem climbing_enemy_slower_counterexample:
  "unit_x (fx_swordsman 10 10) = enemy_x (fx_walker 10 10) \<and>
   unit_y (fx_swordsman 10 10) = enemy_y (fx_walker 10 10) \<and>
   unit_path (fx_swordsman 10 10) = enemy_path (fx_walker 10 10) \<and>
   unit_pathIndex (fx_swordsman 10 10) = enemy_pathIndex (fx_walker 10 10) \<and>
   unit_speed (fx_swordsman 10 10) = enemy_speed (fx_walker 10 10) \<and>
   enemy_x (fst (updateEnemy 1 fx_wall_grid1 20 20 (fx_walker 10 10))) = 21 / 2 \<and>
   unit_x (fst (updateUnit 1 fx_wall_grid1 (fx_swordsman 10 10))) = 11"
  by (simp add: updateEnemy_def updateUnit_def fx_wall_grid1_height fx_walker_def
        fx_swordsman_def Let_def enemy_move.simps unit_move.simps)

section \<open>Gold and hit points on numbers\<close>

text \<open>
  The parts of the non-negativity invariant that hold: \<open>spendGold\<close> rejects a spend above
  the balance and changes nothing, an accepted spend of a number from a non-negative
  balance leaves a non-negative balance, and each \<open>takeDamage\<close> keeps every hp at 0 or
  above.
\<close>

lemma spendGold_rejects:
  "js_lt (getGold ec p) amount \<Longrightarrow> spendGold ec p amount = (False, ec)"
  by (simp add: spendGold_def)

lemma spendGold_nonneg:
  assumes "getGold ec p = Num g" and "0 \<le> g"
  shows "\<exists>g'. getGold (snd (spendGold ec p (Num a))) p = Num g' \<and> 0 \<le> g'"
  using assms by (auto simp: spendGold_def getGold_def js_map_get_set)

lemma set_filter_values: "snd ` set (js_map_delete m k) \<subseteq> snd ` set m"
  by (auto simp: js_map_delete_def)

lemma Enemy_takeDamage_nonneg:
  assumes "\<forall>e \<in> set (getAllEnemies em). 0 \<le> enemy_hp e"
  shows "\<forall>e \<in> set (getAllEnemies (snd (Enemy_takeDamage em i amount))). 0 \<le> enemy_hp e"
proof
  fix e assume "e \<in> set (getAllEnemies (snd (Enemy_takeDamage em i amount)))"
  then have "e \<in> set (getAllEnemies em) \<or> 0 \<le> enemy_hp e"
    using set_filter_values [of "enemies em" i]
    by (auto simp: Enemy_takeDamage_def getAllEnemies_def js_map_values_def Let_def
          split: option.splits if_splits dest!: js_map_set_values)
  with assms show "0 \<le> enemy_hp e" by auto
qed

lemma Castle_takeDamage_nonneg:
  assumes "\<forall>c \<in> set (getAllCastles cm). 0 \<le> castle_hp c"
  shows "\<forall>c \<in> set (getAllCastles (Castle_takeDamage cm p amount)). 0 \<le> castle_hp c"
proof
  fix c assume "c \<in> set (getAllCastles (Castle_takeDamage cm p amount))"
  then have "c \<in> set (getAllCastles cm) \<or> 0 \<le> castle_hp c"
    by (auto simp: Castle_takeDamage_def getAllCastles_def js_map_values_def
          split: option.splits dest!: js_map_set_values)
  with assms show "0 \<le> castle_hp c" by auto
qed

lemma Building_takeDamage_nonneg:
  assumes "\<forall>b \<in> set (getAllBuildings bm). 0 \<le> building_hp b"
  shows "\<forall>b \<in> set (getAllBuildings (snd (Building_takeDamage bm i amount))). 0 \<le> building_hp b"
proof
  fix b assume "b \<in> set (getAllBuildings (snd (Building_takeDamage bm i amount)))"
  then have "b \<in> set (getAllBuildings bm) \<or> 0 \<le> building_hp b"
    by (auto simp: Building_takeDamage_def getAllBuildings_def js_map_values_def Let_def
          split: option.splits dest!: js_map_set_values)
  with assms show "0 \<le> building_hp b" by auto
qed

lemma Army_takeDamage_nonneg:
  assumes "\<forall>u \<in> set (getAllUnits am). 0 \<le> unit_hp u"
  shows "\<forall>u \<in> set (getAllUnits (snd (Army_takeDamage am i amount))). 0 \<le> unit_hp u"
proof
  fix u assume "u \<in> set (getAllUnits (snd (Army_takeDamage am i amount)))"
  then have "u \<in> set (getAllUnits am) \<or> 0 \<le> unit_hp u"
    using set_filter_values [of "units am" i]
    by (auto simp: Army_takeDamage_def getAllUnits_def js_map_values_def Let_def
          split: option.splits if_splits dest!: js_map_set_values)
  with assms show "0 \<le> unit_hp u" by auto
qed

end
